(* ===== verification/Prelude.thy ===== *)
theory Prelude
  imports Main
begin

text \<open>
  Shared vocabulary of the development: Python strings as lists of Unicode code points,
  the few built-in string, list and dict operations that \<^verbatim>\<open>src/main.py\<close> uses
  (\<^verbatim>\<open>str * int\<close>, \<^verbatim>\<open>str.strip\<close>, \<^verbatim>\<open>str.replace\<close>, \<^verbatim>\<open>int(str)\<close>,
  \<^verbatim>\<open>str(int)\<close>, \<^verbatim>\<open>range\<close>, \<^verbatim>\<open>list.insert\<close>, \<^verbatim>\<open>dict(pairs).get\<close>),
  the Python exceptions the program can raise, and the generic list lemmas the
  component theories share.  Python's \<^verbatim>\<open>str\<close> is a sequence of code points, not of
  bytes: the coffee glyph of the program is two code points (U+2615 U+FE0F), so strings
  are \<open>nat list\<close> here rather than HOL's 8-bit \<open>string\<close>; \<open>py\<close> injects an ASCII
  literal.
\<close>

named_theorems py_simps "evaluation rules of the Python built-ins"

type_synonym pystr = "nat list"

definition py :: "string \<Rightarrow> pystr" where
  "py s = map of_char s"

text \<open>Code points the program's formats single out.\<close>

abbreviation LF :: nat where "LF \<equiv> 10"
abbreviation CR :: nat where "CR \<equiv> 13"
abbreviation SP :: nat where "SP \<equiv> 32"
abbreviation DQ :: nat where "DQ \<equiv> 34"
abbreviation COMMA :: nat where "COMMA \<equiv> 44"

subsection \<open>Exceptions\<close>

datatype py_error =
    KeyError
  | ValueError
  | TypeError
  | UnicodeDecodeError
  | UnicodeEncodeError
  | FileNotFoundError
  | PermissionError
  | RuntimeError pystr
  | CsvError pystr

subsection \<open>Characters and strings\<close>

text \<open>
  \<^verbatim>\<open>str.isspace\<close>, which is also what \<^verbatim>\<open>\s\<close> matches in a \<^verbatim>\<open>str\<close> pattern and
  what \<^verbatim>\<open>str.strip()\<close> removes: the Unicode white space of CPython's
  \<^verbatim>\<open>Py_UNICODE_ISSPACE\<close>.
\<close>

definition py_isspace :: "nat \<Rightarrow> bool" where
  "py_isspace c \<longleftrightarrow>
     (9 \<le> c \<and> c \<le> 13) \<or> (28 \<le> c \<and> c \<le> 32) \<or> c = 0x85 \<or> c = 0xA0 \<or> c = 0x1680 \<or>
     (0x2000 \<le> c \<and> c \<le> 0x200A) \<or> c = 0x2028 \<or> c = 0x2029 \<or> c = 0x202F \<or>
     c = 0x205F \<or> c = 0x3000"

definition py_isdigit_ascii :: "nat \<Rightarrow> bool" where
  "py_isdigit_ascii c \<longleftrightarrow> 48 \<le> c \<and> c \<le> 57"

definition py_strip :: "pystr \<Rightarrow> pystr" where
  "py_strip s = rev (dropWhile py_isspace (rev (dropWhile py_isspace s)))"

text \<open>\<^verbatim>\<open>s * n\<close>: \<open>n\<close> copies of \<open>s\<close>, the empty string for \<open>n \<le> 0\<close>.\<close>

definition py_str_mul :: "pystr \<Rightarrow> int \<Rightarrow> pystr" where
  "py_str_mul s n = concat (replicate (nat n) s)"

text \<open>
  \<^verbatim>\<open>s.replace(old, new)\<close>: scan from the left and replace non-overlapping occurrences;
  an empty \<open>old\<close> inserts \<open>new\<close> before every character and at the end.
\<close>

function py_replace :: "pystr \<Rightarrow> pystr \<Rightarrow> pystr \<Rightarrow> pystr" where
  "py_replace old new s =
     (if old = [] then new @ concat (map (\<lambda>c. c # new) s)
      else if s = [] then []
      else if take (length old) s = old then new @ py_replace old new (drop (length old) s)
      else hd s # py_replace old new (tl s))"
  by pat_completeness auto
termination
  by (relation "measure (\<lambda>(old, new, s). length s)") (auto simp: length_greater_0_conv)

declare py_replace.simps [simp del]

subsection \<open>Integers and strings\<close>

text \<open>Decimal digits of a natural number, most significant first (\<^verbatim>\<open>str(n)\<close>).\<close>

fun nat_digits :: "nat \<Rightarrow> pystr" where
  "nat_digits n = (if n < 10 then [48 + n] else nat_digits (n div 10) @ [48 + n mod 10])"

declare nat_digits.simps [simp del]

definition py_str_of_int :: "int \<Rightarrow> pystr" where
  "py_str_of_int i = (if i < 0 then 45 # nat_digits (nat (- i)) else nat_digits (nat i))"

definition dec_value :: "pystr \<Rightarrow> nat" where
  "dec_value ds = foldl (\<lambda>a d. 10 * a + (d - 48)) 0 ds"

text \<open>
  \<^verbatim>\<open>int(s)\<close> on a \<^verbatim>\<open>str\<close>: surrounding white space is stripped, an optional sign,
  then one or more decimal digits; anything else raises \<^verbatim>\<open>ValueError\<close>.  (CPython also
  accepts \<^verbatim>\<open>_\<close> between digits and non-ASCII decimal digits; the program only calls
  \<^verbatim>\<open>int\<close> on values that passed the choice check, which are \<^verbatim>\<open>str\<close> of a small
  integer.)
\<close>

definition py_int :: "pystr \<Rightarrow> py_error + int" where
  "py_int s =
     (let t = py_strip s;
          (sg, ds) = (case t of c # r \<Rightarrow> if c = 45 then (-1, r) else if c = 43 then (1, r) else (1, t)
                               | [] \<Rightarrow> (1, t))
      in if ds \<noteq> [] \<and> list_all py_isdigit_ascii ds then Inr (sg * int (dec_value ds))
         else Inl ValueError)"

subsection \<open>Lists and dicts\<close>

text \<open>\<^verbatim>\<open>range(a, b)\<close> over \<^verbatim>\<open>int\<close>.\<close>

definition py_range :: "int \<Rightarrow> int \<Rightarrow> int list" where
  "py_range a b = [a..b - 1]"

text \<open>\<^verbatim>\<open>xs.insert(i, v)\<close> for a non-negative index (past the end appends).\<close>

definition py_list_insert :: "nat \<Rightarrow> 'a \<Rightarrow> 'a list \<Rightarrow> 'a list" where
  "py_list_insert i v xs = take i xs @ v # drop i xs"

text \<open>\<^verbatim>\<open>dict(pairs).get(k)\<close>: a later pair overrides an earlier one with the same key.\<close>

definition py_dict :: "('k \<times> 'v) list \<Rightarrow> 'k \<Rightarrow> 'v option" where
  "py_dict ps = map_of (rev ps)"

subsection \<open>Shared lemmas\<close>

lemma py_cons [py_simps]: "py (c # s) = of_char c # py s"
  and py_nil [py_simps]: "py [] = []"
  by (simp_all add: py_def)

lemma py_list_insert_0 [simp]: "py_list_insert 0 v xs = v # xs"
  by (simp add: py_list_insert_def)

lemma py_range_1_6 [py_simps]: "py_range 1 6 = [1, 2, 3, 4, 5]"
  by (simp add: py_range_def upto.simps)

lemma set_py_range [simp]: "set (py_range a b) = {a..b - 1}"
  by (simp add: py_range_def)

lemma distinct_py_range [simp]: "distinct (py_range a b)"
  by (simp add: py_range_def)

lemma map_of_graph: "map_of (map (\<lambda>k. (k, f k)) xs) k = (if k \<in> set xs then Some (f k) else None)"
  by (induction xs) auto

lemma py_dict_distinct:
  assumes d: "distinct (map fst ps)"
  shows "py_dict ps = map_of ps"
proof (rule ext)
  fix k
  have d': "distinct (map fst (rev ps))"
    using d by (simp add: rev_map [symmetric])
  show "py_dict ps k = map_of ps k"
  proof (cases "map_of ps k")
    case None
    then have "k \<notin> fst ` set (rev ps)" by (simp add: map_of_eq_None_iff)
    then have "map_of (rev ps) k = None" by (rule map_of_eq_None_iff [THEN iffD2])
    with None show ?thesis by (simp add: py_dict_def)
  next
    case (Some v)
    with d have "(k, v) \<in> set ps" by (simp add: map_of_eq_Some_iff)
    with d' Some show ?thesis by (simp add: py_dict_def map_of_eq_Some_iff)
  qed
qed

lemma py_str_mul_nonneg: "0 \<le> n \<Longrightarrow> py_str_mul s n = concat (replicate (nat n) s)"
  by (simp add: py_str_mul_def)

lemma replicate_numeral_py [py_simps]: "replicate (numeral k) x = x # replicate (pred_numeral k) x"
  by (simp add: numeral_eq_Suc)

lemma length_concat_replicate [simp]: "length (concat (replicate n s)) = n * length s"
  by (induction n) auto

text \<open>\<^verbatim>\<open>s.replace(c, "")\<close> for a one-character \<open>c\<close> deletes every occurrence of \<open>c\<close>.\<close>

lemma py_replace_char_empty: "py_replace [c] [] s = removeAll c s"
proof (induction s)
  case Nil
  then show ?case by (simp add: py_replace.simps)
next
  case (Cons x s)
  then show ?case by (subst py_replace.simps) auto
qed

lemma dec_value_snoc: "dec_value (ds @ [d]) = 10 * dec_value ds + (d - 48)"
  by (simp add: dec_value_def)

lemma dec_value_nat_digits: "dec_value (nat_digits n) = n"
proof (induction n rule: nat_digits.induct)
  case (1 n)
  then show ?case
    by (subst nat_digits.simps) (simp add: dec_value_snoc dec_value_def)
qed

lemma nat_digits_digits: "list_all py_isdigit_ascii (nat_digits n)"
proof (induction n rule: nat_digits.induct)
  case (1 n)
  then show ?case
    by (subst nat_digits.simps) (auto simp: py_isdigit_ascii_def list_all_iff)
qed

lemma nat_digits_ne: "nat_digits n \<noteq> []"
  by (subst nat_digits.simps) simp

lemma digits_not_space: "py_isdigit_ascii c \<Longrightarrow> \<not> py_isspace c"
  by (simp add: py_isdigit_ascii_def py_isspace_def)

lemma py_strip_id:
  assumes "s = [] \<or> (\<not> py_isspace (hd s) \<and> \<not> py_isspace (last s))"
  shows "py_strip s = s"
proof (cases s rule: rev_cases)
  case Nil
  then show ?thesis by (simp add: py_strip_def)
next
  case (snoc ys y)
  with assms have "\<not> py_isspace (hd s)" and "\<not> py_isspace y" by auto
  then have "dropWhile py_isspace s = s"
    by (cases s) auto
  with snoc \<open>\<not> py_isspace y\<close> show ?thesis by (simp add: py_strip_def)
qed

lemma py_str_of_int_ne: "py_str_of_int i \<noteq> []"
  by (simp add: py_str_of_int_def nat_digits_ne)

lemma py_strip_str_of_int: "py_strip (py_str_of_int i) = py_str_of_int i"
proof -
  let ?n = "nat \<bar>i\<bar>"
  have ds: "list_all py_isdigit_ascii (nat_digits ?n)" "nat_digits ?n \<noteq> []"
    by (rule nat_digits_digits, rule nat_digits_ne)
  then have "py_isdigit_ascii (hd (nat_digits ?n))" "py_isdigit_ascii (last (nat_digits ?n))"
    by (auto simp: list_all_iff)
  then have ns: "\<not> py_isspace (hd (nat_digits ?n))" "\<not> py_isspace (last (nat_digits ?n))"
    by (auto dest: digits_not_space)
  show ?thesis
  proof (cases "i < 0")
    case True
    with ns ds(2) show ?thesis
      by (intro py_strip_id) (simp add: py_str_of_int_def py_isspace_def)
  next
    case False
    with ns ds(2) show ?thesis
      by (intro py_strip_id) (simp add: py_str_of_int_def)
  qed
qed

text \<open>\<^verbatim>\<open>int(str(i)) == i\<close>: the choice values of a select field read back.\<close>

lemma py_int_str_of_int: "py_int (py_str_of_int i) = Inr i"
proof -
  let ?n = "nat \<bar>i\<bar>"
  have ds: "list_all py_isdigit_ascii (nat_digits ?n)" "nat_digits ?n \<noteq> []"
    by (rule nat_digits_digits, rule nat_digits_ne)
  then have "py_isdigit_ascii (hd (nat_digits ?n))"
    by (auto simp: list_all_iff)
  then have sign: "hd (nat_digits ?n) \<noteq> 45" "hd (nat_digits ?n) \<noteq> 43"
    by (auto simp: py_isdigit_ascii_def)
  show ?thesis
  proof (cases "i < 0")
    case True
    with ds py_strip_str_of_int [of i] show ?thesis
      by (simp add: py_int_def py_str_of_int_def dec_value_nat_digits)
  next
    case False
    moreover have "int (dec_value (nat_digits (nat i))) = i"
      using False by (simp add: dec_value_nat_digits)
    ultimately show ?thesis
      using ds sign py_strip_str_of_int [of i]
      by (cases "nat_digits (nat i)")
         (auto simp: py_int_def py_str_of_int_def dec_value_nat_digits)
  qed
qed

lemma py_str_of_int_eq_iff: "py_str_of_int a = py_str_of_int b \<longleftrightarrow> a = b"
  by (metis py_int_str_of_int sum.inject(2))

end
