(* ===== verification/Rating.thy ===== *)
theory Rating
  imports Prelude
begin

text \<open>
  The rating encoder of \<^verbatim>\<open>src/main.py\<close> (lines 26--42): the \<^verbatim>\<open>emojis\<close> dict, the three
  module-level choice lists \<^verbatim>\<open>coffee_rating_list\<close>, \<^verbatim>\<open>wifi_rating_list\<close> and
  \<^verbatim>\<open>power_rating_list\<close> of (score, display string) pairs, and the lookup
  \<^verbatim>\<open>dict(<list>).get(score)\<close> that \<^verbatim>\<open>add()\<close> uses to turn a submitted score into the
  string stored in the CSV file (lines 87--89).  The spec's \<^verbatim>\<open>encode(category, n)\<close>
  (section 4.1) is \<open>spec_encode\<close>; \<open>rating_option_refines\<close> shows the lists
  implement it, and \<open>rating_of_display\<close> recovers the score by counting glyphs.
\<close>

subsection \<open>The glyph table and the choice lists\<close>

definition emojis :: "(string \<times> pystr) list" where
  "emojis = [(''x'', [0x2718]), (''coffee'', [0x2615, 0xFE0F]),
             (''wifi'', [0x1F4AA]), (''power'', [0x1F50C])]"

text \<open>\<^verbatim>\<open>emojis[k]\<close>; every key the program uses is present (\<open>emoji_keys\<close>).\<close>

definition emoji :: "string \<Rightarrow> pystr" where
  "emoji k = the (map_of emojis k)"

definition coffee_rating_list :: "(int \<times> pystr) list" where
  "coffee_rating_list = map (\<lambda>index. (index, py_str_mul (emoji ''coffee'') index)) (py_range 1 6)"

definition wifi_rating_list :: "(int \<times> pystr) list" where
  "wifi_rating_list =
     py_list_insert 0 (0, emoji ''x'')
       (map (\<lambda>index. (index, py_str_mul (emoji ''wifi'') index)) (py_range 1 6))"

definition power_rating_list :: "(int \<times> pystr) list" where
  "power_rating_list =
     py_list_insert 0 (0, emoji ''x'')
       (map (\<lambda>index. (index, py_str_mul (emoji ''power'') index)) (py_range 1 6))"

text \<open>
  The three rating fields of the form, and which list each one uses: the
  \<^verbatim>\<open>choices=\<close> of the three \<^verbatim>\<open>SelectField\<close>s (lines 60--62) and the list looked up
  in \<^verbatim>\<open>add()\<close> (lines 87--89).
\<close>

datatype category = Coffee | Wifi | Power

primrec rating_list :: "category \<Rightarrow> (int \<times> pystr) list" where
  "rating_list Coffee = coffee_rating_list"
| "rating_list Wifi = wifi_rating_list"
| "rating_list Power = power_rating_list"

text \<open>\<^verbatim>\<open>dict(<category>_rating_list).get(score)\<close>.\<close>

definition rating_option :: "category \<Rightarrow> int \<Rightarrow> pystr option" where
  "rating_option c n = py_dict (rating_list c) n"

subsection \<open>The specification of the encoder\<close>

text \<open>
  Spec section 4.1: for a score \<open>n \<ge> 1\<close> the category's glyph repeated \<open>n\<close> times;
  \<open>0\<close> is the sentinel glyph, for wifi and power only; coffee takes 1--5, wifi and power
  0--5; anything else has no encoding.
\<close>

primrec glyph :: "category \<Rightarrow> pystr" where
  "glyph Coffee = [0x2615, 0xFE0F]"
| "glyph Wifi = [0x1F4AA]"
| "glyph Power = [0x1F50C]"

definition sentinel :: pystr where
  "sentinel = [0x2718]"

definition spec_encode :: "category \<Rightarrow> int \<Rightarrow> pystr option" where
  "spec_encode c n =
     (if 1 \<le> n \<and> n \<le> 5 then Some (concat (replicate (nat n) (glyph c)))
      else if n = 0 \<and> c \<noteq> Coffee then Some sentinel
      else None)"

text \<open>Decoding a stored display string: count the glyph repetitions.\<close>

function glyph_count :: "pystr \<Rightarrow> pystr \<Rightarrow> nat option" where
  "glyph_count g s =
     (if s = [] then Some 0
      else if g \<noteq> [] \<and> take (length g) s = g then map_option Suc (glyph_count g (drop (length g) s))
      else None)"
  by pat_completeness auto
termination
  by (relation "measure (\<lambda>(g, s). length s)") auto

declare glyph_count.simps [simp del]

definition rating_of_display :: "category \<Rightarrow> pystr \<Rightarrow> int option" where
  "rating_of_display c s =
     (if c \<noteq> Coffee \<and> s = sentinel then Some 0
      else case glyph_count (glyph c) s of
             Some k \<Rightarrow> if 1 \<le> k \<and> k \<le> 5 then Some (int k) else None
           | None \<Rightarrow> None)"

subsection \<open>The lists, evaluated\<close>

lemma emoji_keys:
  "emoji ''x'' = sentinel" "emoji ''coffee'' = glyph Coffee"
  "emoji ''wifi'' = glyph Wifi" "emoji ''power'' = glyph Power"
  by (simp_all add: emoji_def emojis_def sentinel_def)

lemma rating_list_eq:
  "rating_list c =
     (if c = Coffee then [] else [(0, sentinel)]) @
     map (\<lambda>i. (i, concat (replicate (nat i) (glyph c)))) (py_range 1 6)"
proof -
  have mul: "map (\<lambda>i. (i, py_str_mul g i)) (py_range 1 6) =
             map (\<lambda>i. (i, concat (replicate (nat i) g))) (py_range 1 6)" for g
    by (simp add: py_str_mul_def)
  show ?thesis
    by (cases c) (simp_all add: coffee_rating_list_def wifi_rating_list_def
                                power_rating_list_def emoji_keys mul)
qed

lemma rating_keys_distinct: "distinct (map fst (rating_list c))"
  by (simp add: rating_list_eq comp_def)

lemma rating_keys: "map fst (rating_list c) = (if c = Coffee then [] else [0]) @ py_range 1 6"
  by (simp add: rating_list_eq comp_def)

subsection \<open>The encoder implements its specification\<close>

lemma rating_option_refines: "rating_option c n = spec_encode c n"
proof -
  have "rating_option c n = map_of (rating_list c) n"
    by (simp add: rating_option_def py_dict_distinct rating_keys_distinct)
  also have "\<dots> = spec_encode c n"
    by (auto simp: rating_list_eq spec_encode_def map_of_graph map_add_def)
  finally show ?thesis .
qed

subsection \<open>Decoding by counting glyphs\<close>

lemma glyph_count_replicate:
  "g \<noteq> [] \<Longrightarrow> glyph_count g (concat (replicate k g) @ s) = map_option ((+) k) (glyph_count g s)"
proof (induction k)
  case 0
  then show ?case by (simp add: option.map_ident)
next
  case (Suc k)
  then show ?case
    by (subst glyph_count.simps) (cases "glyph_count g s", simp_all)
qed

lemma glyph_count_rep: "g \<noteq> [] \<Longrightarrow> glyph_count g (concat (replicate k g)) = Some k"
  using glyph_count_replicate [of g k "[]"] by (simp add: glyph_count.simps)

lemma glyph_ne [simp]: "glyph c \<noteq> []"
  by (cases c) simp_all

lemma sentinel_not_glyphs: "glyph_count (glyph c) sentinel = None"
  by (cases c) (simp_all add: sentinel_def glyph_count.simps)

lemma sentinel_not_repetition: "sentinel \<noteq> concat (replicate k (glyph c))"
  using sentinel_not_glyphs [of c] glyph_count_rep [of "glyph c" k] by auto

lemma spec_encode_decode:
  assumes enc: "spec_encode c n = Some s"
  shows "rating_of_display c s = Some n"
proof (cases "1 \<le> n \<and> n \<le> 5")
  case True
  with enc have s: "s = concat (replicate (nat n) (glyph c))"
    by (simp add: spec_encode_def)
  then have "s \<noteq> sentinel"
    using sentinel_not_repetition by metis
  moreover have "Suc 0 \<le> nat n \<and> nat n \<le> 5"
    using True by linarith
  ultimately show ?thesis
    using s True by (simp add: rating_of_display_def glyph_count_rep)
next
  case False
  with enc have "n = 0" "c \<noteq> Coffee" "s = sentinel"
    by (auto simp: spec_encode_def split: if_splits)
  then show ?thesis by (simp add: rating_of_display_def)
qed

subsection \<open>Properties of the encoder\<close>

text \<open>
  C1 (refinement): looking a score up in the category's choice list, as \<^verbatim>\<open>add()\<close>
  does, gives exactly the spec's encoding: the glyph repeated \<open>n\<close> times for
  \<open>1 \<le> n \<le> 5\<close>, the sentinel for \<open>0\<close> on wifi and power, nothing otherwise.
  In particular coffee has no entry for \<open>0\<close>: the comment at line 37 says that every
  list runs "from 0 (default X) to 5", but line 38 starts the coffee list at 1 and no
  \<^verbatim>\<open>insert(0, ...)\<close> follows it, as it does for wifi and power.
\<close>

theorem encoder_refines_spec: "rating_option c n = spec_encode c n"
  by (rule rating_option_refines)

text \<open>
  C2 (round trip): every display string the encoder produces decodes, by counting glyph
  repetitions, to the score it was produced from; in particular the encoding is injective.
\<close>

theorem display_roundtrip:
  assumes "rating_option c n = Some s"
  shows "rating_of_display c s = Some n"
  using assms by (simp add: rating_option_refines spec_encode_decode)

theorem display_roundtrip_witness:
  "rating_option Wifi 3 = Some [0x1F4AA, 0x1F4AA, 0x1F4AA] \<and>
   rating_of_display Wifi [0x1F4AA, 0x1F4AA, 0x1F4AA] = Some 3"
proof -
  have h: "rating_option Wifi 3 = Some [0x1F4AA, 0x1F4AA, 0x1F4AA]"
    by (simp add: rating_option_refines spec_encode_def numeral_3_eq_3)
  show ?thesis using h display_roundtrip [OF h] by simp
qed

end
