(* ===== verification/Regex.thy ===== *)
theory Regex
  imports Prelude
begin

text \<open>
  The fragment of Python's \<^verbatim>\<open>re\<close> that the program's one pattern uses (literals,
  character classes, \<^verbatim>\<open>\s\<close>, concatenation, alternation, \<^verbatim>\<open>?\<close>, \<^verbatim>\<open>^\<close>,
  \<^verbatim>\<open>$\<close>), as a backtracking matcher.  \<open>rx_match w r s\<close> lists, in the order the
  backtracking engine tries them, the remainders of \<open>s\<close> after a match of \<open>r\<close> at the
  start of \<open>s\<close>; \<open>w\<close> is the whole subject string, which the anchors consult.  Without
  \<^verbatim>\<open>re.MULTILINE\<close>, \<^verbatim>\<open>^\<close> matches only at position 0 and \<^verbatim>\<open>$\<close> at the end or just
  before a final newline.  \<^verbatim>\<open>re.match(p, w)\<close> succeeds when some path succeeds
  (\<open>py_re_match\<close>); \<^verbatim>\<open>re.fullmatch\<close> when some path consumes everything
  (\<open>py_re_fullmatch\<close>).  \<open>rx_match_lang\<close> proves the matcher agrees with the
  language of an anchor-free expression.
\<close>

datatype rx =
    Eps
  | Lit nat
  | Cls "(nat \<times> nat) list"
  | Ws
  | Seq rx rx
  | Alt rx rx
  | Opt rx
  | Bol
  | Eol

fun seqs :: "rx list \<Rightarrow> rx" where
  "seqs [] = Eps"
| "seqs [r] = r"
| "seqs (r # rs) = Seq r (seqs rs)"

definition in_class :: "(nat \<times> nat) list \<Rightarrow> nat \<Rightarrow> bool" where
  "in_class rs c \<longleftrightarrow> list_ex (\<lambda>(a, b). a \<le> c \<and> c \<le> b) rs"

fun rx_char :: "(nat \<Rightarrow> bool) \<Rightarrow> pystr \<Rightarrow> pystr list" where
  "rx_char p [] = []"
| "rx_char p (x # xs) = (if p x then [xs] else [])"

fun rx_match :: "pystr \<Rightarrow> rx \<Rightarrow> pystr \<Rightarrow> pystr list" where
  "rx_match w Eps s = [s]"
| "rx_match w (Lit c) s = rx_char (\<lambda>x. x = c) s"
| "rx_match w (Cls rs) s = rx_char (in_class rs) s"
| "rx_match w Ws s = rx_char py_isspace s"
| "rx_match w (Seq r1 r2) s = concat (map (rx_match w r2) (rx_match w r1 s))"
| "rx_match w (Alt r1 r2) s = rx_match w r1 s @ rx_match w r2 s"
| "rx_match w (Opt r) s = rx_match w r s @ [s]"
| "rx_match w Bol s = (if length s = length w then [s] else [])"
| "rx_match w Eol s = (if s = [] \<or> s = [LF] then [s] else [])"

definition py_re_match :: "rx \<Rightarrow> pystr \<Rightarrow> bool" where
  "py_re_match r w \<longleftrightarrow> rx_match w r w \<noteq> []"

definition py_re_fullmatch :: "rx \<Rightarrow> pystr \<Rightarrow> bool" where
  "py_re_fullmatch r w \<longleftrightarrow> List.member (rx_match w r w) []"

subsection \<open>Language semantics\<close>

fun anchor_free :: "rx \<Rightarrow> bool" where
  "anchor_free Bol = False"
| "anchor_free Eol = False"
| "anchor_free (Seq r1 r2) = (anchor_free r1 \<and> anchor_free r2)"
| "anchor_free (Alt r1 r2) = (anchor_free r1 \<and> anchor_free r2)"
| "anchor_free (Opt r) = anchor_free r"
| "anchor_free _ = True"

fun lang :: "rx \<Rightarrow> pystr set" where
  "lang Eps = {[]}"
| "lang (Lit c) = {[c]}"
| "lang (Cls rs) = {[x] | x. in_class rs x}"
| "lang Ws = {[x] | x. py_isspace x}"
| "lang (Seq r1 r2) = {u @ v | u v. u \<in> lang r1 \<and> v \<in> lang r2}"
| "lang (Alt r1 r2) = lang r1 \<union> lang r2"
| "lang (Opt r) = insert [] (lang r)"
| "lang Bol = {[]}"
| "lang Eol = {[]}"

lemma set_rx_char: "set (rx_char p s) = {t. \<exists>x. p x \<and> s = x # t}"
  by (cases s) auto

lemma rx_match_lang:
  "anchor_free r \<Longrightarrow> set (rx_match w r s) = {t. \<exists>u \<in> lang r. s = u @ t}"
proof (induction r arbitrary: s)
  case (Seq r1 r2)
  then show ?case by (auto simp: set_rx_char) (metis append.assoc)+
qed (auto simp: set_rx_char)

lemma rx_match_Bol_start: "rx_match w Bol w = [w]"
  by simp

lemma py_re_match_anchored:
  assumes "anchor_free r"
  shows "py_re_match (seqs [Bol, r, Eol]) w \<longleftrightarrow> (\<exists>u \<in> lang r. w = u \<or> w = u @ [LF])"
proof -
  have "py_re_match (seqs [Bol, r, Eol]) w \<longleftrightarrow>
        (\<exists>t \<in> set (rx_match w r w). t = [] \<or> t = [LF])"
    by (auto simp: py_re_match_def concat_eq_Nil_conv)
  also have "\<dots> \<longleftrightarrow> (\<exists>u \<in> lang r. w = u \<or> w = u @ [LF])"
    using rx_match_lang [OF assms, of w w] by auto
  finally show ?thesis .
qed

lemma py_re_fullmatch_lang:
  "anchor_free r \<Longrightarrow> py_re_fullmatch r w \<longleftrightarrow> w \<in> lang r"
  using rx_match_lang [of r w w] by (auto simp: py_re_fullmatch_def)

lemma lang_Seq_mono:
  "lang a \<subseteq> lang a' \<Longrightarrow> lang b \<subseteq> lang b' \<Longrightarrow> lang (Seq a b) \<subseteq> lang (Seq a' b')"
  by auto

lemma lang_Seq_assoc: "lang (Seq (Seq a b) c) = lang (Seq a (Seq b c))"
  by auto (metis append.assoc)+

lemma lang_Seq_cong: "lang b = lang b' \<Longrightarrow> lang (Seq a b) = lang (Seq a b')"
  by simp

end
