(* ===== verification/TimeFormat.thy ===== *)
theory TimeFormat
  imports Regex
begin

text \<open>
  The time-format check of the \<^verbatim>\<open>opening\<close> and \<^verbatim>\<open>closing\<close> fields of \<^verbatim>\<open>CafeForm\<close>
  (\<^verbatim>\<open>src/main.py\<close> lines 48--59): the WTForms \<^verbatim>\<open>Regexp\<close> validator with the pattern
  \<^verbatim>\<open>^([1-9]|1[0-2]):?(0[0-9]|[1-5][0-9])?\s?(AM|PM)$\<close>, which calls
  \<^verbatim>\<open>re.match(pattern, data or "")\<close>.  The pattern is transcribed piece by piece into
  \<open>time_regex\<close>.  The spec's grammar (section 4.2: hour 1--12, optionally \<^verbatim>\<open>:\<close> and
  two minute digits 00--59, an optional space, \<^verbatim>\<open>AM\<close> or \<^verbatim>\<open>PM\<close>, nothing else) is
  \<open>spec_time_regex\<close> under \<^verbatim>\<open>re.fullmatch\<close>.
\<close>

definition hour_rx :: rx where
  "hour_rx = Alt (Cls [(49, 57)]) (Seq (Lit 49) (Cls [(48, 50)]))"

definition minute_rx :: rx where
  "minute_rx = Alt (Seq (Lit 48) (Cls [(48, 57)])) (Seq (Cls [(49, 53)]) (Cls [(48, 57)]))"

definition meridiem_rx :: rx where
  "meridiem_rx = Alt (Seq (Lit 65) (Lit 77)) (Seq (Lit 80) (Lit 77))"

definition time_core :: rx where
  "time_core = seqs [hour_rx, Opt (Lit 58), Opt minute_rx, Opt Ws, meridiem_rx]"

definition time_regex :: rx where
  "time_regex = seqs [Bol, time_core, Eol]"

definition time_message :: pystr where
  "time_message = py ''Incorrect format. Correct format: 9PM or 5:30AM''"

text \<open>\<^verbatim>\<open>Regexp(regex=..., message=...)\<close> applied to the field's data.\<close>

definition time_format_ok :: "pystr \<Rightarrow> bool" where
  "time_format_ok s = py_re_match time_regex s"

subsection \<open>The spec's grammar\<close>

definition spec_time_regex :: rx where
  "spec_time_regex =
     seqs [hour_rx, Opt (seqs [Lit 58, Cls [(48, 53)], Cls [(48, 57)]]), Opt (Lit SP), meridiem_rx]"

definition spec_time_ok :: "pystr \<Rightarrow> bool" where
  "spec_time_ok s = py_re_fullmatch spec_time_regex s"

subsection \<open>The languages, explicitly\<close>

definition hour_strs :: "pystr set" where
  "hour_strs = {[d] | d. 49 \<le> d \<and> d \<le> 57} \<union> {[49, d] | d. 48 \<le> d \<and> d \<le> 50}"

definition minute_strs :: "pystr set" where
  "minute_strs = {[a, d] | a d. 48 \<le> a \<and> a \<le> 53 \<and> 48 \<le> d \<and> d \<le> 57}"

definition space_strs :: "pystr set" where
  "space_strs = {[x] | x. py_isspace x}"

definition meridiem_strs :: "pystr set" where
  "meridiem_strs = {[65, 77], [80, 77]}"

lemma anchor_free_time [simp]:
  "anchor_free time_core" "anchor_free spec_time_regex"
  by (simp_all add: time_core_def spec_time_regex_def hour_rx_def minute_rx_def meridiem_rx_def)

lemma lang_hour: "lang hour_rx = hour_strs"
  by (auto simp: hour_rx_def hour_strs_def in_class_def)

lemma lang_minute: "lang minute_rx = minute_strs"
proof (intro equalityI subsetI)
  fix x
  assume "x \<in> lang minute_rx"
  then show "x \<in> minute_strs"
    by (auto simp: minute_rx_def minute_strs_def in_class_def)
next
  fix x
  assume "x \<in> minute_strs"
  then obtain a d where x: "x = [a, d]" and a: "48 \<le> a" "a \<le> 53" and d: "48 \<le> d" "d \<le> 57"
    by (auto simp: minute_strs_def)
  have ad: "[a, d] = [a] @ [d]" and dl: "[d] \<in> lang (Cls [(48, 57)])"
    using d by (simp_all add: in_class_def)
  have "[a, d] \<in> lang (Seq (Lit 48) (Cls [(48, 57)])) \<union> lang (Seq (Cls [(49, 53)]) (Cls [(48, 57)]))"
  proof (cases "a = 48")
    case True
    then have "[a] \<in> lang (Lit 48)" by simp
    with ad dl show ?thesis by (simp only: lang.simps) blast
  next
    case False
    with a have "[a] \<in> lang (Cls [(49, 53)])" by (simp add: in_class_def)
    with ad dl show ?thesis by (simp only: lang.simps) blast
  qed
  then show "x \<in> lang minute_rx"
    by (simp only: x minute_rx_def lang.simps(6))
qed

lemma lang_meridiem: "lang meridiem_rx = meridiem_strs"
  by (auto simp: meridiem_rx_def meridiem_strs_def)

lemma lang_time_core:
  "lang time_core =
     {h @ c @ m @ s @ a | h c m s a. h \<in> hour_strs \<and> c \<in> {[], [58]} \<and> m \<in> insert [] minute_strs \<and>
                                  s \<in> insert [] space_strs \<and> a \<in> meridiem_strs}"
  by (simp add: time_core_def lang_hour lang_minute lang_meridiem space_strs_def
                insert_commute) blast

lemma lang_spec_minutes:
  "lang (Opt (seqs [Lit 58, Cls [(48, 53)], Cls [(48, 57)]])) \<subseteq> lang (Seq (Opt (Lit 58)) (Opt minute_rx))"
proof
  fix x
  assume "x \<in> lang (Opt (seqs [Lit 58, Cls [(48, 53)], Cls [(48, 57)]]))"
  then consider "x = []" | a d where "x = [58] @ [a, d]" "[a, d] \<in> minute_strs"
    by (auto simp: in_class_def minute_strs_def)
  then show "x \<in> lang (Seq (Opt (Lit 58)) (Opt minute_rx))"
  proof cases
    case 1
    then show ?thesis by simp
  next
    case 2
    then show ?thesis unfolding lang.simps lang_minute by blast
  qed
qed

lemma lang_spec_space: "lang (Opt (Lit SP)) \<subseteq> lang (Opt Ws)"
  by (auto simp: py_isspace_def)

lemma lang_spec_time_core: "lang spec_time_regex \<subseteq> lang time_core"
proof -
  let ?cm = "Opt (seqs [Lit 58, Cls [(48, 53)], Cls [(48, 57)]])"
  have "lang spec_time_regex = lang (Seq hour_rx (Seq ?cm (Seq (Opt (Lit SP)) meridiem_rx)))"
    by (simp add: spec_time_regex_def)
  also have "\<dots> \<subseteq> lang (Seq hour_rx (Seq (Seq (Opt (Lit 58)) (Opt minute_rx)) (Seq (Opt Ws) meridiem_rx)))"
    by (intro lang_Seq_mono subset_refl lang_spec_minutes lang_spec_space)
  also have "\<dots> = lang (Seq hour_rx (Seq (Opt (Lit 58)) (Seq (Opt minute_rx) (Seq (Opt Ws) meridiem_rx))))"
    by (rule lang_Seq_cong [OF lang_Seq_assoc])
  also have "\<dots> = lang time_core"
    by (simp only: time_core_def seqs.simps)
  finally show ?thesis .
qed

text \<open>The matcher's verdict on the pattern, as a statement about the pieces of the string.\<close>

lemma time_format_ok_lang: "time_format_ok w \<longleftrightarrow> (\<exists>u \<in> lang time_core. w = u \<or> w = u @ [LF])"
  unfolding time_format_ok_def time_regex_def
  by (rule py_re_match_anchored) simp

lemma mem_time_core:
  "u \<in> lang time_core \<longleftrightarrow>
     (\<exists>h c m s a. u = h @ c @ m @ s @ a \<and> h \<in> hour_strs \<and> c \<in> {[], [58]} \<and>
                m \<in> insert [] minute_strs \<and> s \<in> insert [] space_strs \<and> a \<in> meridiem_strs)"
  by (simp only: lang_time_core mem_Collect_eq)
lemma time_format_ok_iff:
  "time_format_ok w \<longleftrightarrow>
     (\<exists>h c m s a. h \<in> hour_strs \<and> c \<in> {[], [58]} \<and> m \<in> insert [] minute_strs \<and>
                s \<in> insert [] space_strs \<and> a \<in> meridiem_strs \<and>
                (w = h @ c @ m @ s @ a \<or> w = h @ c @ m @ s @ a @ [LF]))"
  (is "_ \<longleftrightarrow> ?rhs")
proof
  assume "time_format_ok w"
  then obtain u where u: "u \<in> lang time_core" and w: "w = u \<or> w = u @ [LF]"
    by (auto simp: time_format_ok_lang)
  from u obtain h c m s a where
    eq: "u = h @ c @ m @ s @ a" and
    P: "h \<in> hour_strs" "c \<in> {[], [58]}" "m \<in> insert [] minute_strs"
       "s \<in> insert [] space_strs" "a \<in> meridiem_strs"
    unfolding mem_time_core by (elim exE conjE) (rule that, assumption+)
  have H: "h \<in> hour_strs \<and> c \<in> {[], [58]} \<and> m \<in> insert [] minute_strs \<and>
        s \<in> insert [] space_strs \<and> a \<in> meridiem_strs \<and>
        (w = h @ c @ m @ s @ a \<or> w = h @ c @ m @ s @ a @ [LF])"
    using P w eq by (simp only: simp_thms append_assoc)
  show ?rhs
    by (rule exI [of _ h], rule exI [of _ c], rule exI [of _ m], rule exI [of _ s],
        rule exI [of _ a], rule H)
next
  assume ?rhs
  then obtain h c m s a where
    P: "h \<in> hour_strs" "c \<in> {[], [58]}" "m \<in> insert [] minute_strs"
       "s \<in> insert [] space_strs" "a \<in> meridiem_strs" and
    W: "w = h @ c @ m @ s @ a \<or> w = h @ c @ m @ s @ a @ [LF]"
    by (elim exE conjE) (rule that, assumption+)
  have "h @ c @ m @ s @ a \<in> lang time_core"
    unfolding mem_time_core
    by (rule exI [of _ h], rule exI [of _ c], rule exI [of _ m], rule exI [of _ s],
        rule exI [of _ a]) (intro conjI refl P)
  then show "time_format_ok w"
    unfolding time_format_ok_lang using W by auto
qed
lemma time_format_okI:
  assumes "h \<in> hour_strs" "c \<in> {[], [58]}" "m \<in> insert [] minute_strs"
    "s \<in> insert [] space_strs" "a \<in> meridiem_strs"
    and "w = h @ c @ m @ s @ a \<or> w = h @ c @ m @ s @ a @ [LF]"
  shows "time_format_ok w"
  unfolding time_format_ok_iff
  by (rule exI [of _ h], rule exI [of _ c], rule exI [of _ m], rule exI [of _ s],
      rule exI [of _ a]) (intro conjI assms)

lemma time_format_okE:
  assumes "time_format_ok w"
  obtains h c m s a where "h \<in> hour_strs" "c \<in> {[], [58]}" "m \<in> insert [] minute_strs"
    "s \<in> insert [] space_strs" "a \<in> meridiem_strs"
    "w = h @ c @ m @ s @ a \<or> w = h @ c @ m @ s @ a @ [LF]"
  using assms unfolding time_format_ok_iff by (elim exE conjE) (rule that, assumption+)

lemma no_space_pieces:
  "h \<in> hour_strs \<Longrightarrow> SP \<notin> set h"
  "c \<in> {[], [58]} \<Longrightarrow> SP \<notin> set c"
  "m \<in> insert [] minute_strs \<Longrightarrow> SP \<notin> set m"
  "a \<in> meridiem_strs \<Longrightarrow> SP \<notin> set a"
  by (auto simp: hour_strs_def minute_strs_def meridiem_strs_def)

lemma removeAll_space_piece:
  assumes "s \<in> insert [] space_strs"
  shows "removeAll SP s \<in> insert [] space_strs"
proof (cases "s = []")
  case False
  with assms obtain x where "s = [x]" "py_isspace x"
    by (auto simp: space_strs_def)
  then show ?thesis
    by (cases "x = SP") (simp_all add: space_strs_def)
qed simp

lemma piece_lengths:
  "h \<in> hour_strs \<Longrightarrow> 1 \<le> length h \<and> length h \<le> 2"
  "c \<in> {[], [58]} \<Longrightarrow> length c \<le> 1"
  "m \<in> insert [] minute_strs \<Longrightarrow> length m \<le> 2"
  "s \<in> insert [] space_strs \<Longrightarrow> length s \<le> 1"
  "a \<in> meridiem_strs \<Longrightarrow> length a = 2"
  by (auto simp: hour_strs_def minute_strs_def space_strs_def meridiem_strs_def)

text \<open>A time that passes the check is 3 to 9 code points long once its spaces are
  removed: hour, optional colon and minutes, an optional white-space character other than
  a space, the meridiem, and the final newline \<^verbatim>\<open>$\<close> lets through.\<close>

lemma time_stored_length:
  assumes "time_format_ok w"
  shows "3 \<le> length (removeAll SP w) \<and> length (removeAll SP w) \<le> 9"
proof -
  obtain h c m s a where P: "h \<in> hour_strs" "c \<in> {[], [58]}" "m \<in> insert [] minute_strs"
      "s \<in> insert [] space_strs" "a \<in> meridiem_strs"
    and w: "w = h @ c @ m @ s @ a \<or> w = h @ c @ m @ s @ a @ [LF]"
    using assms by (rule time_format_okE)
  have keep: "removeAll SP h = h" "removeAll SP a = a"
    using no_space_pieces(1) [OF P(1)] no_space_pieces(4) [OF P(5)] by (simp_all add: removeAll_id)
  have "length h + length a \<le> length (removeAll SP w)"
    using w keep by auto
  moreover have "length w \<le> 9"
    using w piece_lengths(1) [OF P(1)] piece_lengths(2) [OF P(2)] piece_lengths(3) [OF P(3)]
          piece_lengths(4) [OF P(4)] piece_lengths(5) [OF P(5)] by auto
  ultimately show ?thesis
    using piece_lengths(1) [OF P(1)] piece_lengths(5) [OF P(5)] length_removeAll_less_eq [of SP w]
    by linarith
qed

lemmas time_eval = time_format_ok_def time_regex_def time_core_def hour_rx_def minute_rx_def
  meridiem_rx_def py_re_match_def py_re_fullmatch_def spec_time_ok_def spec_time_regex_def
  in_class_def py_isspace_def py_simps

subsection \<open>Properties of the time check\<close>

text \<open>
  C3 (equivalence): the \<^verbatim>\<open>Regexp\<close> check accepts exactly the strings made of an hour
  1--12, an optional colon, an optional two-digit minute 00--59, one optional Unicode
  white-space character and \<^verbatim>\<open>AM\<close>/\<^verbatim>\<open>PM\<close>, optionally followed by one final newline
  (Python's \<^verbatim>\<open>$\<close>).  The colon and the minutes are independent of each other.
\<close>

theorem time_check_language:
  "time_format_ok w \<longleftrightarrow>
     (\<exists>h c m s a. h \<in> hour_strs \<and> c \<in> {[], [58]} \<and> m \<in> insert [] minute_strs \<and>
                s \<in> insert [] space_strs \<and> a \<in> meridiem_strs \<and>
                (w = h @ c @ m @ s @ a \<or> w = h @ c @ m @ s @ a @ [LF]))"
  by (rule time_format_ok_iff)

text \<open>
  C4 (safety): every string in the spec's time grammar passes the program's check.
\<close>

theorem spec_times_accepted:
  assumes "spec_time_ok w"
  shows "time_format_ok w"
proof -
  from assms have "w \<in> lang spec_time_regex"
    by (simp add: spec_time_ok_def py_re_fullmatch_lang)
  with lang_spec_time_core have "w \<in> lang time_core" ..
  then show ?thesis
    unfolding time_format_ok_lang by blast
qed

theorem spec_times_accepted_witness:
  "spec_time_ok (py ''5:30 PM'') \<and> time_format_ok (py ''5:30 PM'')"
proof -
  have h: "spec_time_ok (py ''5:30 PM'')" by (simp add: time_eval)
  show ?thesis using h spec_times_accepted [OF h] by simp
qed

text \<open>
  C5 (invariant): what \<^verbatim>\<open>add()\<close> stores for a time that passed the check,
  \<^verbatim>\<open>str(data).replace(" ", "")\<close> (lines 92--93), contains no space and still passes the
  check.
\<close>

theorem stored_time_valid:
  assumes "time_format_ok w"
  shows "time_format_ok (py_replace [SP] [] w) \<and> SP \<notin> set (py_replace [SP] [] w)"
proof -
  from assms obtain h c m s a where
    p: "h \<in> hour_strs" "c \<in> {[], [58]}" "m \<in> insert [] minute_strs"
       "s \<in> insert [] space_strs" "a \<in> meridiem_strs" and
    w: "w = h @ c @ m @ s @ a \<or> w = h @ c @ m @ s @ a @ [LF]"
    by (rule time_format_okE)
  have keep: "removeAll SP h = h" "removeAll SP c = c" "removeAll SP m = m" "removeAll SP a = a"
    using no_space_pieces p by (simp_all add: removeAll_id)
  have "removeAll SP s \<in> insert [] space_strs"
    using p(4) by (rule removeAll_space_piece)
  moreover have "removeAll SP w = h @ c @ m @ removeAll SP s @ a \<or>
                 removeAll SP w = h @ c @ m @ removeAll SP s @ a @ [LF]"
    using w keep by auto
  ultimately have "time_format_ok (removeAll SP w)"
    using p by (intro time_format_okI) simp_all
  then show ?thesis by (simp add: py_replace_char_empty)
qed

theorem stored_time_valid_witness:
  "time_format_ok (py ''5:30 PM'') \<and> py_replace [SP] [] (py ''5:30 PM'') = py ''5:30PM'' \<and>
   time_format_ok (py ''5:30PM'')"
proof -
  have h: "time_format_ok (py ''5:30 PM'')" by (simp add: time_eval)
  have r: "py_replace [SP] [] (py ''5:30 PM'') = py ''5:30PM''"
    by (simp add: py_replace_char_empty py_simps)
  show ?thesis using h r stored_time_valid [OF h] by simp
qed

end
