(* ===== verification/Csv.thy ===== *)
theory Csv
  imports Prelude
begin

text \<open>
  The CSV layer under \<^verbatim>\<open>cafe-data.csv\<close>.  The program writes rows with
  \<^verbatim>\<open>csv.writer(file).writerow(row)\<close> on a file opened with \<^verbatim>\<open>newline=""\<close>
  (\<^verbatim>\<open>src/main.py\<close> lines 86, 97--98) and reads them back with
  \<^verbatim>\<open>csv.reader(file, delimiter=',')\<close> on a file opened in default text mode (lines
  74--78).  Both use the default \<^verbatim>\<open>excel\<close> dialect: delimiter \<^verbatim>\<open>,\<close>, quote
  character \<^verbatim>\<open>"\<close> doubled inside quoted fields, no escape character, minimal quoting,
  line terminator \<^verbatim>\<open>\r\n\<close>.  The model follows CPython 3.11's \<^verbatim>\<open>_csv.c\<close>:
  \<open>csv_writerow\<close> is \<^verbatim>\<open>csv_writerow\<close>/\<^verbatim>\<open>join_append_data\<close>; \<open>csv_step\<close> is
  \<^verbatim>\<open>parse_process_char\<close> (one case per parser state, \<open>EOL\<close> the end-of-line marker
  the reader feeds after each line) and \<open>csv_events\<close> the record loop of
  \<^verbatim>\<open>Reader_iternext\<close>, which hands out a record whenever an end of line leaves the
  parser in \<open>START_RECORD\<close>; \<open>csv_finish\<close> is its end-of-input case.  Reading in text
  mode first applies universal newlines (\<open>univ_nl\<close>: \<^verbatim>\<open>\r\n\<close> and \<^verbatim>\<open>\r\<close>
  become \<^verbatim>\<open>\n\<close>) and splits the text into lines after each \<^verbatim>\<open>\n\<close>
  (\<open>split_lines\<close>).  Text is modelled at the level of code points; \<open>Utf8\<close> shows that
  the UTF-8 layer of the file is lossless for the text the program writes.
\<close>

subsection \<open>Writer\<close>

definition csv_special :: "nat \<Rightarrow> bool" where
  "csv_special c \<longleftrightarrow> c = COMMA \<or> c = DQ \<or> c = CR \<or> c = LF"

definition csv_escape :: "pystr \<Rightarrow> pystr" where
  "csv_escape f = concat (map (\<lambda>c. if c = DQ then [DQ, DQ] else [c]) f)"

definition csv_quote_field :: "pystr \<Rightarrow> pystr" where
  "csv_quote_field f = (if list_ex csv_special f then DQ # csv_escape f @ [DQ] else f)"

fun csv_join :: "pystr list \<Rightarrow> pystr" where
  "csv_join [] = []"
| "csv_join [f] = f"
| "csv_join (f # fs) = f @ COMMA # csv_join fs"

text \<open>A record that is one empty field is written as \<^verbatim>\<open>""\<close>, so that it reads back.\<close>

definition csv_body :: "pystr list \<Rightarrow> pystr" where
  "csv_body fs = (if fs = [[]] then [DQ, DQ] else csv_join (map csv_quote_field fs))"

definition csv_writerow :: "pystr list \<Rightarrow> pystr" where
  "csv_writerow fs = csv_body fs @ [CR, LF]"

text \<open>\<^verbatim>\<open>writerow\<close> writes \<^verbatim>\<open>None\<close> as an empty field.\<close>

definition csv_cell :: "pystr option \<Rightarrow> pystr" where
  "csv_cell v = (case v of None \<Rightarrow> [] | Some s \<Rightarrow> s)"

subsection \<open>Text mode: universal newlines and lines\<close>

fun univ_nl :: "pystr \<Rightarrow> pystr" where
  "univ_nl [] = []"
| "univ_nl [c] = [if c = CR then LF else c]"
| "univ_nl (c # d # cs) =
     (if c = CR \<and> d = LF then LF # univ_nl cs else (if c = CR then LF else c) # univ_nl (d # cs))"

fun split_lines_acc :: "pystr \<Rightarrow> pystr \<Rightarrow> pystr list" where
  "split_lines_acc acc [] = (if acc = [] then [] else [acc])"
| "split_lines_acc acc (c # cs) =
     (if c = LF then (acc @ [LF]) # split_lines_acc [] cs else split_lines_acc (acc @ [c]) cs)"

definition split_lines :: "pystr \<Rightarrow> pystr list" where
  "split_lines t = split_lines_acc [] t"

subsection \<open>Reader\<close>

datatype pstate =
    START_RECORD | START_FIELD | IN_FIELD | IN_QUOTED_FIELD | QUOTE_IN_QUOTED_FIELD | EAT_CRNL

datatype event = Ch nat | EOL

record reader =
  rstate :: pstate
  rfields :: "pystr list"
  rfield :: pystr

definition init_reader :: reader where
  "init_reader = \<lparr>rstate = START_RECORD, rfields = [], rfield = []\<rparr>"

definition field_limit :: nat where
  "field_limit = 131072"

definition save_field :: "reader \<Rightarrow> pstate \<Rightarrow> reader" where
  "save_field r st = r\<lparr>rstate := st, rfields := rfields r @ [rfield r], rfield := []\<rparr>"

definition add_char :: "reader \<Rightarrow> nat \<Rightarrow> pstate \<Rightarrow> py_error + reader" where
  "add_char r c st =
     (if field_limit \<le> length (rfield r)
      then Inl (CsvError (py ''field larger than field limit (131072)''))
      else Inr (r\<lparr>rstate := st, rfield := rfield r @ [c]\<rparr>))"

definition start_field :: "reader \<Rightarrow> nat \<Rightarrow> py_error + reader" where
  "start_field r c =
     (if c = LF \<or> c = CR then Inr (save_field r EAT_CRNL)
      else if c = DQ then Inr (r\<lparr>rstate := IN_QUOTED_FIELD\<rparr>)
      else if c = COMMA then Inr (save_field r START_FIELD)
      else add_char r c IN_FIELD)"

fun csv_step :: "reader \<Rightarrow> event \<Rightarrow> py_error + reader" where
  "csv_step r EOL =
     (case rstate r of
        START_RECORD \<Rightarrow> Inr r
      | START_FIELD \<Rightarrow> Inr (save_field r START_RECORD)
      | IN_FIELD \<Rightarrow> Inr (save_field r START_RECORD)
      | IN_QUOTED_FIELD \<Rightarrow> Inr r
      | QUOTE_IN_QUOTED_FIELD \<Rightarrow> Inr (save_field r START_RECORD)
      | EAT_CRNL \<Rightarrow> Inr (r\<lparr>rstate := START_RECORD\<rparr>))"
| "csv_step r (Ch c) =
     (case rstate r of
        START_RECORD \<Rightarrow> if c = LF \<or> c = CR then Inr (r\<lparr>rstate := EAT_CRNL\<rparr>) else start_field r c
      | START_FIELD \<Rightarrow> start_field r c
      | IN_FIELD \<Rightarrow>
          if c = LF \<or> c = CR then Inr (save_field r EAT_CRNL)
          else if c = COMMA then Inr (save_field r START_FIELD)
          else add_char r c IN_FIELD
      | IN_QUOTED_FIELD \<Rightarrow>
          if c = DQ then Inr (r\<lparr>rstate := QUOTE_IN_QUOTED_FIELD\<rparr>) else add_char r c IN_QUOTED_FIELD
      | QUOTE_IN_QUOTED_FIELD \<Rightarrow>
          if c = DQ then add_char r c IN_QUOTED_FIELD
          else if c = COMMA then Inr (save_field r START_FIELD)
          else if c = LF \<or> c = CR then Inr (save_field r EAT_CRNL)
          else add_char r c IN_FIELD
      | EAT_CRNL \<Rightarrow>
          if c = LF \<or> c = CR then Inr r
          else Inl (CsvError (py ''new-line character seen in unquoted field'')))"

fun csv_events :: "reader \<Rightarrow> event list \<Rightarrow> py_error + (pystr list list \<times> reader)" where
  "csv_events r [] = Inr ([], r)"
| "csv_events r (e # es) =
     (case csv_step r e of
        Inl err \<Rightarrow> Inl err
      | Inr r' \<Rightarrow>
          if e = EOL \<and> rstate r' = START_RECORD then
            (case csv_events init_reader es of
               Inl err \<Rightarrow> Inl err
             | Inr (rows, r'') \<Rightarrow> Inr (rfields r' # rows, r''))
          else csv_events r' es)"

definition csv_finish :: "reader \<Rightarrow> pystr list list" where
  "csv_finish r = (if rfield r \<noteq> [] \<or> rstate r = IN_QUOTED_FIELD then [rfields r @ [rfield r]] else [])"

definition line_events :: "pystr list \<Rightarrow> event list" where
  "line_events ls = concat (map (\<lambda>l. map Ch l @ [EOL]) ls)"

text \<open>
  \<^verbatim>\<open>list(csv.reader(open(path, encoding="utf-8")))\<close> for a file whose content is
  \<open>t\<close>.
\<close>

definition csv_read :: "pystr \<Rightarrow> py_error + pystr list list" where
  "csv_read t =
     (case csv_events init_reader (line_events (split_lines (univ_nl t))) of
        Inl err \<Rightarrow> Inl err
      | Inr (rows, r) \<Rightarrow> Inr (rows @ csv_finish r))"

subsection \<open>Proof vocabulary\<close>

text \<open>
  The events the reader sees for a text that ends with a newline (\<open>ev_text\<close>: every
  \<^verbatim>\<open>\n\<close> is followed by the end-of-line marker), readers built from their three
  fields (\<open>rd\<close>), and the condition on the store under which appending is safe
  (\<open>csv_clean\<close>: the text ends with a line terminator and reading it stops between
  records).
\<close>

definition ev_text :: "pystr \<Rightarrow> event list" where
  "ev_text t = concat (map (\<lambda>c. if c = LF then [Ch c, EOL] else [Ch c]) t)"

definition rd :: "pstate \<Rightarrow> pystr list \<Rightarrow> pystr \<Rightarrow> reader" where
  "rd st fs f = \<lparr>rstate = st, rfields = fs, rfield = f\<rparr>"

definition csv_clean :: "pystr \<Rightarrow> bool" where
  "csv_clean t \<longleftrightarrow>
     (t = [] \<or> last t = LF \<or> last t = CR) \<and>
     (case csv_events init_reader (line_events (split_lines (univ_nl t))) of
        Inl _ \<Rightarrow> False
      | Inr (_, r) \<Rightarrow> r = init_reader)"

subsection \<open>Events and lines\<close>

lemma ev_text_simps [simp]:
  "ev_text [] = []"
  "ev_text (c # t) = (if c = LF then [Ch c, EOL] else [Ch c]) @ ev_text t"
  "ev_text (a @ b) = ev_text a @ ev_text b"
  by (simp_all add: ev_text_def)

lemma ev_text_no_LF: "LF \<notin> set t \<Longrightarrow> ev_text t = map Ch t"
  by (induction t) auto

lemma line_events_split_acc:
  "LF \<notin> set acc \<Longrightarrow>
   line_events (split_lines_acc acc t) =
     ev_text (acc @ t) @ (if acc @ t \<noteq> [] \<and> last (acc @ t) \<noteq> LF then [EOL] else [])"
proof (induction t arbitrary: acc)
  case Nil
  then show ?case by (auto simp: line_events_def ev_text_no_LF dest: last_in_set)
next
  case (Cons c t)
  show ?case
  proof (cases "c = LF")
    case True
    with Cons.IH [of "[]"] Cons.prems show ?thesis
      by (auto simp: line_events_def ev_text_no_LF)
  next
    case False
    with Cons.IH [of "acc @ [c]"] Cons.prems show ?thesis by simp
  qed
qed

lemma line_events_split:
  "line_events (split_lines t) = ev_text t @ (if t \<noteq> [] \<and> last t \<noteq> LF then [EOL] else [])"
  using line_events_split_acc [of "[]" t] by (simp add: split_lines_def)

lemma csv_events_append:
  "csv_events r (es1 @ es2) =
     (case csv_events r es1 of
        Inl e \<Rightarrow> Inl e
      | Inr (rows1, r1) \<Rightarrow>
          (case csv_events r1 es2 of
             Inl e \<Rightarrow> Inl e
           | Inr (rows2, r2) \<Rightarrow> Inr (rows1 @ rows2, r2)))"
proof (induction r es1 rule: csv_events.induct)
  case (1 r)
  then show ?case by (simp split: sum.split prod.split)
next
  case (2 r e es)
  then show ?case by (auto split: sum.split prod.split)
qed

subsection \<open>Universal newlines\<close>

lemma univ_nl_Cons [simp]:
  "c \<noteq> CR \<Longrightarrow> univ_nl (c # s) = c # univ_nl s"
  by (cases s) auto

lemma univ_nl_CR_LF [simp]: "univ_nl (CR # LF # s) = LF # univ_nl s"
  by simp

lemma univ_nl_CR: "s = [] \<or> hd s \<noteq> LF \<Longrightarrow> univ_nl (CR # s) = LF # univ_nl s"
  by (cases s) auto

lemma univ_nl_append:
  "a = [] \<or> last a \<noteq> CR \<or> b = [] \<or> hd b \<noteq> LF \<Longrightarrow> univ_nl (a @ b) = univ_nl a @ univ_nl b"
proof (induction a rule: univ_nl.induct)
  case 1
  then show ?case by simp
next
  case (2 c)
  then show ?case by (cases b) auto
next
  case (3 c d cs)
  then show ?case by (cases cs) auto
qed

lemma univ_nl_id: "CR \<notin> set s \<Longrightarrow> univ_nl s = s"
  by (induction s rule: univ_nl.induct) auto

lemma CR_notin_univ_nl: "CR \<notin> set (univ_nl s)"
  by (induction s rule: univ_nl.induct) auto

lemma univ_nl_Nil_iff [simp]: "univ_nl s = [] \<longleftrightarrow> s = []"
  by (induction s rule: univ_nl.induct) auto

lemma univ_nl_last:
  "s \<noteq> [] \<Longrightarrow> last s = LF \<or> last s = CR \<Longrightarrow> last (univ_nl s) = LF"
  by (induction s rule: univ_nl.induct) (auto split: if_splits)

lemma csv_escape_simps [simp]:
  "csv_escape [] = []"
  "csv_escape (c # s) = (if c = DQ then [DQ, DQ] else [c]) @ csv_escape s"
  "csv_escape (a @ b) = csv_escape a @ csv_escape b"
  by (simp_all add: csv_escape_def)

lemma special_univ_nl: "list_ex csv_special (univ_nl f) = list_ex csv_special f"
  by (induction f rule: univ_nl.induct) (auto simp: csv_special_def)

lemma univ_nl_escape: "univ_nl (csv_escape f) = csv_escape (univ_nl f)"
proof (induction f rule: univ_nl.induct)
  case (3 c d cs)
  show ?case
  proof (cases "c = CR")
    case True
    show ?thesis
    proof (cases "d = LF")
      case True
      with \<open>c = CR\<close> "3.IH"(1) show ?thesis by simp
    next
      case False
      then have "univ_nl (CR # csv_escape (d # cs)) = LF # univ_nl (csv_escape (d # cs))"
        by (intro univ_nl_CR) simp
      with True False "3.IH"(2) show ?thesis by simp
    qed
  next
    case False
    with "3.IH"(2) show ?thesis by simp
  qed
qed simp_all

lemma univ_nl_quote: "univ_nl (csv_quote_field f) = csv_quote_field (univ_nl f)"
proof (cases "list_ex csv_special f")
  case True
  have "univ_nl (csv_escape f @ [DQ]) = univ_nl (csv_escape f) @ [DQ]"
    by (subst univ_nl_append) simp_all
  with True show ?thesis
    by (simp add: csv_quote_field_def special_univ_nl univ_nl_escape)
next
  case False
  then have "CR \<notin> set f" by (auto simp: csv_special_def list_ex_iff)
  with False show ?thesis by (simp add: csv_quote_field_def univ_nl_id)
qed

lemma univ_nl_join: "univ_nl (csv_join xs) = csv_join (map univ_nl xs)"
proof (induction xs rule: csv_join.induct)
  case (3 f g fs)
  have "univ_nl (f @ COMMA # csv_join (g # fs)) = univ_nl f @ univ_nl (COMMA # csv_join (g # fs))"
    by (rule univ_nl_append) simp
  with "3.IH" show ?case by simp
qed simp_all

lemma univ_nl_writerow: "univ_nl (csv_writerow fs) = csv_body (map univ_nl fs) @ [LF]"
proof -
  have "univ_nl (csv_writerow fs) = univ_nl (csv_body fs) @ univ_nl [CR, LF]"
    unfolding csv_writerow_def by (rule univ_nl_append) simp
  moreover have "univ_nl (csv_body fs) = csv_body (map univ_nl fs)"
  proof (cases "fs = [[]]")
    case True
    then show ?thesis by (simp add: csv_body_def)
  next
    case False
    then have "map univ_nl fs \<noteq> [[]]" by (cases fs) auto
    with False show ?thesis
      by (simp add: csv_body_def univ_nl_join univ_nl_quote comp_def)
  qed
  ultimately show ?thesis by simp
qed

lemma hd_quote_field: "csv_quote_field f \<noteq> [] \<Longrightarrow> hd (csv_quote_field f) \<noteq> LF"
  by (cases f) (auto simp: csv_quote_field_def csv_special_def)

lemma hd_join: "(\<forall>x \<in> set xs. x = [] \<or> hd x \<noteq> LF) \<Longrightarrow> csv_join xs = [] \<or> hd (csv_join xs) \<noteq> LF"
  by (induction xs rule: csv_join.induct) (auto simp: hd_append)

lemma hd_writerow: "hd (csv_writerow fs) \<noteq> LF"
proof -
  have "csv_body fs = [] \<or> hd (csv_body fs) \<noteq> LF"
    using hd_join [of "map csv_quote_field fs"] hd_quote_field
    by (auto simp: csv_body_def)
  then show ?thesis by (auto simp: csv_writerow_def hd_append)
qed

lemma rd_sel [simp]: "rstate (rd st fs f) = st" "rfields (rd st fs f) = fs" "rfield (rd st fs f) = f"
  by (simp_all add: rd_def)

lemma init_reader_rd: "init_reader = rd START_RECORD [] []"
  by (simp add: init_reader_def rd_def)

lemma add_char_ok:
  "length f < field_limit \<Longrightarrow> add_char (rd st fs f) c st' = Inr (rd st' fs (f @ [c]))"
  by (simp add: add_char_def rd_def)

lemma save_field_rd: "save_field (rd st fs f) st' = rd st' (fs @ [f]) []"
  by (simp add: save_field_def rd_def)

lemma set_state_rd: "(rd st fs f)\<lparr>rstate := st'\<rparr> = rd st' fs f"
  by (simp add: rd_def)

lemma csv_events_Ch [simp]:
  "csv_events r (Ch c # es) = (case csv_step r (Ch c) of Inl err \<Rightarrow> Inl err | Inr r' \<Rightarrow> csv_events r' es)"
  by (simp split: sum.split)

lemma quoted_body:
  "CR \<notin> set g \<Longrightarrow> length f + length g \<le> field_limit \<Longrightarrow>
   csv_events (rd IN_QUOTED_FIELD fs f) (ev_text (csv_escape g @ [DQ])) =
     Inr ([], rd QUOTE_IN_QUOTED_FIELD fs (f @ g))"
proof (induction g arbitrary: f)
  case Nil
  then show ?case by (simp add: set_state_rd)
next
  case (Cons c g)
  then have lt: "length f < field_limit" by simp
  show ?case
  proof (cases "c = DQ")
    case True
    from True lt Cons.prems Cons.IH [of "f @ [c]"] show ?thesis
      by (simp add: add_char_ok set_state_rd)
  next
    case False
    with lt Cons.prems Cons.IH [of "f @ [c]"] show ?thesis
      by (cases "c = LF") (simp_all add: add_char_ok)
  qed
qed

lemma unquoted_body:
  "\<not> list_ex csv_special g \<Longrightarrow> length f + length g \<le> field_limit \<Longrightarrow>
   csv_events (rd IN_FIELD fs f) (ev_text g) = Inr ([], rd IN_FIELD fs (f @ g))"
proof (induction g arbitrary: f)
  case (Cons c g)
  then have "length f < field_limit" by simp
  with Cons.prems Cons.IH [of "f @ [c]"] show ?case
    by (simp add: add_char_ok csv_special_def)
qed simp

lemma hd_quote_field_nl:
  "csv_quote_field f \<noteq> [] \<Longrightarrow> hd (csv_quote_field f) \<noteq> LF \<and> hd (csv_quote_field f) \<noteq> CR"
  by (cases f) (auto simp: csv_quote_field_def csv_special_def)

lemma hd_join_nl:
  "(\<forall>x \<in> set xs. x = [] \<or> (hd x \<noteq> LF \<and> hd x \<noteq> CR)) \<Longrightarrow>
   csv_join xs = [] \<or> (hd (csv_join xs) \<noteq> LF \<and> hd (csv_join xs) \<noteq> CR)"
  by (induction xs rule: csv_join.induct) (auto simp: hd_append)

lemma csv_join_Cons: "xs \<noteq> [] \<Longrightarrow> csv_join (x # xs) = x @ COMMA # csv_join xs"
  by (cases xs) auto

lemma read_field:
  assumes "CR \<notin> set g" "length g \<le> field_limit"
  obtains st where
    "csv_events (rd START_FIELD fs []) (ev_text (csv_quote_field g)) = Inr ([], rd st fs g)"
    "st = START_FIELD \<and> g = [] \<or> st = IN_FIELD \<or> st = QUOTE_IN_QUOTED_FIELD"
proof (cases "list_ex csv_special g")
  case True
  have "csv_events (rd IN_QUOTED_FIELD fs []) (ev_text (csv_escape g @ [DQ])) =
        Inr ([], rd QUOTE_IN_QUOTED_FIELD fs ([] @ g))"
    using assms by (intro quoted_body) simp_all
  with True show ?thesis
    by (intro that [of QUOTE_IN_QUOTED_FIELD]) (simp_all add: csv_quote_field_def start_field_def set_state_rd)
next
  case False
  show ?thesis
  proof (cases g)
    case Nil
    then show ?thesis by (intro that [of START_FIELD]) (simp_all add: csv_quote_field_def)
  next
    case (Cons c g')
    have "csv_events (rd IN_FIELD fs [c]) (ev_text g') = Inr ([], rd IN_FIELD fs ([c] @ g'))"
      using assms False Cons by (intro unquoted_body) simp_all
    moreover have "0 < field_limit" by (simp add: field_limit_def)
    ultimately show ?thesis
      using False Cons
      by (intro that [of IN_FIELD]) (auto simp: csv_quote_field_def start_field_def csv_special_def
                                             add_char_ok)
  qed
qed

lemma sep_step:
  "st = START_FIELD \<and> g = [] \<or> st = IN_FIELD \<or> st = QUOTE_IN_QUOTED_FIELD \<Longrightarrow> d = COMMA \<or> d = LF \<Longrightarrow>
   csv_step (rd st fs g) (Ch d) = Inr (rd (if d = COMMA then START_FIELD else EAT_CRNL) (fs @ [g]) [])"
  by (auto simp: start_field_def save_field_rd)

lemma read_fields:
  "gs \<noteq> [] \<Longrightarrow> \<forall>g \<in> set gs. CR \<notin> set g \<and> length g \<le> field_limit \<Longrightarrow>
   csv_events (rd START_FIELD acc []) (ev_text (csv_join (map csv_quote_field gs) @ [LF])) =
     Inr ([acc @ gs], init_reader)"
proof (induction gs arbitrary: acc)
  case Nil
  then show ?case by simp
next
  case (Cons g gs)
  then have g: "CR \<notin> set g" "length g \<le> field_limit" by simp_all
  obtain st where f: "csv_events (rd START_FIELD acc []) (ev_text (csv_quote_field g)) = Inr ([], rd st acc g)"
    and st: "st = START_FIELD \<and> g = [] \<or> st = IN_FIELD \<or> st = QUOTE_IN_QUOTED_FIELD"
    using g by (rule read_field)
  show ?case
  proof (cases "gs = []")
    case True
    have "csv_events (rd st acc g) [Ch LF, EOL] = Inr ([acc @ [g]], init_reader)"
      using sep_step [OF st, of LF acc] by (simp add: set_state_rd init_reader_rd)
    with f True show ?thesis by (simp add: csv_events_append)
  next
    case False
    have rest: "csv_events (rd START_FIELD (acc @ [g]) []) (ev_text (csv_join (map csv_quote_field gs) @ [LF])) =
                Inr ([acc @ g # gs], init_reader)"
      using Cons.IH [of "acc @ [g]"] Cons.prems False by simp
    have "csv_step (rd st acc g) (Ch COMMA) = Inr (rd START_FIELD (acc @ [g]) [])"
      using sep_step [OF st, of COMMA acc] by simp
    with f rest False show ?thesis by (simp add: csv_events_append csv_join_Cons)
  qed
qed

lemma start_record_as_field:
  "c \<noteq> LF \<Longrightarrow> c \<noteq> CR \<Longrightarrow> csv_step init_reader (Ch c) = csv_step (rd START_FIELD [] []) (Ch c)"
  by (simp add: init_reader_rd start_field_def save_field_def add_char_def rd_def)

lemma read_written_row:
  assumes "\<forall>f \<in> set fs. length (univ_nl f) \<le> field_limit"
  shows "csv_events init_reader (ev_text (univ_nl (csv_writerow fs))) = Inr ([map univ_nl fs], init_reader)"
proof -
  let ?gs = "map univ_nl fs"
  have gs: "\<forall>g \<in> set ?gs. CR \<notin> set g \<and> length g \<le> field_limit"
    using assms by (auto simp: CR_notin_univ_nl)
  consider "?gs = []" | "?gs = [[]]" | "?gs \<noteq> []" "?gs \<noteq> [[]]" by blast
  then show ?thesis
  proof cases
    case 1
    then show ?thesis
      by (simp add: univ_nl_writerow csv_body_def init_reader_rd set_state_rd)
  next
    case 2
    then show ?thesis
      by (simp add: univ_nl_writerow csv_body_def init_reader_rd set_state_rd start_field_def
                    save_field_rd)
  next
    case 3
    let ?b = "csv_join (map csv_quote_field ?gs)"
    have "?b \<noteq> []"
      using 3 by (cases ?gs rule: csv_join.cases) (auto simp: csv_quote_field_def)
    moreover have "hd ?b \<noteq> LF \<and> hd ?b \<noteq> CR"
      using hd_join_nl [of "map csv_quote_field ?gs"] hd_quote_field_nl \<open>?b \<noteq> []\<close> by auto
    ultimately obtain c b' where b: "?b = c # b'" "c \<noteq> LF" "c \<noteq> CR"
      by (cases ?b) auto
    have "csv_events (rd START_FIELD [] []) (ev_text (?b @ [LF])) = Inr ([[] @ ?gs], init_reader)"
      using 3 gs by (intro read_fields) simp_all
    with b start_record_as_field [OF b(2,3)] have
      "csv_events init_reader (ev_text (?b @ [LF])) = Inr ([?gs], init_reader)"
      by simp
    with 3 show ?thesis by (simp add: univ_nl_writerow csv_body_def)
  qed
qed

lemma csv_clean_Nil: "csv_clean []"
  by (simp add: csv_clean_def split_lines_def line_events_def)

lemma line_events_terminated:
  "u = [] \<or> last u = LF \<Longrightarrow> line_events (split_lines u) = ev_text u"
  by (auto simp: line_events_split)

lemma univ_nl_terminated:
  "t = [] \<or> last t = LF \<or> last t = CR \<Longrightarrow> univ_nl t = [] \<or> last (univ_nl t) = LF"
  using univ_nl_last [of t] by auto

lemma csv_finish_init [simp]: "csv_finish init_reader = []"
  by (simp add: csv_finish_def init_reader_def)

lemma csv_append_row:
  assumes clean: "csv_clean t" and lim: "\<forall>f \<in> set fs. length (univ_nl f) \<le> field_limit"
  shows "\<exists>rows. csv_events init_reader (ev_text (univ_nl t)) = Inr (rows, init_reader) \<and>
                csv_read t = Inr rows \<and>
                csv_events init_reader (ev_text (univ_nl (t @ csv_writerow fs))) =
                  Inr (rows @ [map univ_nl fs], init_reader)"
proof -
  let ?U = "univ_nl t" and ?W = "univ_nl (csv_writerow fs)"
  have tmd: "?U = [] \<or> last ?U = LF"
    using clean by (intro univ_nl_terminated) (simp add: csv_clean_def)
  then have le: "line_events (split_lines ?U) = ev_text ?U"
    by (rule line_events_terminated)
  from clean le obtain rows where rows: "csv_events init_reader (ev_text ?U) = Inr (rows, init_reader)"
    by (auto simp: csv_clean_def split: sum.splits)
  have read_t: "csv_read t = Inr rows"
    using rows le by (simp add: csv_read_def)
  have "univ_nl (t @ csv_writerow fs) = ?U @ ?W"
    using hd_writerow [of fs] by (intro univ_nl_append) simp
  moreover have "csv_events init_reader (ev_text ?W) = Inr ([map univ_nl fs], init_reader)"
    using lim by (rule read_written_row)
  ultimately have "csv_events init_reader (ev_text (univ_nl (t @ csv_writerow fs))) =
                   Inr (rows @ [map univ_nl fs], init_reader)"
    using rows by (simp add: csv_events_append)
  with rows read_t show ?thesis by blast
qed

lemma last_univ_nl_writerow: "univ_nl (csv_writerow fs) \<noteq> [] \<and> last (univ_nl (csv_writerow fs)) = LF"
  by (simp add: univ_nl_writerow)

lemma csv_append_read_rows:
  assumes "csv_clean t" and "\<forall>f \<in> set fs. length (univ_nl f) \<le> field_limit"
  shows "\<exists>rows. csv_read t = Inr rows \<and> csv_read (t @ csv_writerow fs) = Inr (rows @ [map univ_nl fs])"
proof -
  obtain rows where
    r: "csv_read t = Inr rows" and
    e: "csv_events init_reader (ev_text (univ_nl (t @ csv_writerow fs))) = Inr (rows @ [map univ_nl fs], init_reader)"
    using csv_append_row [OF assms] by blast
  have "univ_nl (t @ csv_writerow fs) = univ_nl t @ univ_nl (csv_writerow fs)"
    using hd_writerow [of fs] by (intro univ_nl_append) simp
  then have "line_events (split_lines (univ_nl (t @ csv_writerow fs))) = ev_text (univ_nl (t @ csv_writerow fs))"
    using last_univ_nl_writerow [of fs] by (intro line_events_terminated) simp
  with r e show ?thesis by (simp add: csv_read_def)
qed

lemma csv_clean_append_row:
  assumes "csv_clean t" and "\<forall>f \<in> set fs. length (univ_nl f) \<le> field_limit"
  shows "csv_clean (t @ csv_writerow fs)"
proof -
  obtain rows where
    e: "csv_events init_reader (ev_text (univ_nl (t @ csv_writerow fs))) = Inr (rows @ [map univ_nl fs], init_reader)"
    using csv_append_row [OF assms] by blast
  have "univ_nl (t @ csv_writerow fs) = univ_nl t @ univ_nl (csv_writerow fs)"
    using hd_writerow [of fs] by (intro univ_nl_append) simp
  then have "line_events (split_lines (univ_nl (t @ csv_writerow fs))) = ev_text (univ_nl (t @ csv_writerow fs))"
    using last_univ_nl_writerow [of fs] by (intro line_events_terminated) simp
  with e show ?thesis by (simp add: csv_clean_def csv_writerow_def)
qed

lemma unquoted_overflow:
  "\<not> list_ex csv_special g \<Longrightarrow> length f \<le> field_limit \<Longrightarrow> field_limit < length f + length g \<Longrightarrow>
   \<exists>err. csv_events (rd IN_FIELD fs f) (ev_text g @ es) = Inl err"
proof (induction g arbitrary: f)
  case (Cons c g)
  show ?case
  proof (cases "length f = field_limit")
    case True
    with Cons.prems show ?thesis by (simp add: add_char_def csv_special_def)
  next
    case False
    with Cons.prems have "length f < field_limit" by simp
    with Cons.prems Cons.IH [of "f @ [c]"] show ?thesis
      by (simp add: add_char_ok csv_special_def)
  qed
qed simp

lemma csv_join_first: "g \<noteq> [] \<Longrightarrow> \<exists>rest. csv_join (g # xs) = g @ rest"
  by (cases xs) auto

lemma overflow_row_events:
  assumes ns: "\<not> list_ex csv_special g" and long: "field_limit < length g"
  shows "\<exists>err. csv_events init_reader (ev_text (univ_nl (csv_writerow (g # fs)))) = Inl err"
proof -
  have "CR \<notin> set g" using ns by (auto simp: csv_special_def list_ex_iff)
  then have ug: "univ_nl g = g" by (rule univ_nl_id)
  from long obtain c g' where g: "g = c # g'" by (cases g) auto
  have cq: "csv_quote_field g = g" using ns by (simp add: csv_quote_field_def)
  obtain rest0 where j: "csv_join (g # map csv_quote_field (map univ_nl fs)) = g @ rest0"
    using csv_join_first [of g] g by blast
  have gne: "g \<noteq> []" using g by simp
  have w: "univ_nl (csv_writerow (g # fs)) = g @ (rest0 @ [LF])"
    using j gne by (simp add: univ_nl_writerow csv_body_def ug cq del: map_map)
  have c: "c \<noteq> LF" "c \<noteq> CR" "c \<noteq> DQ" "c \<noteq> COMMA"
    using ns g by (auto simp: csv_special_def)
  have "0 < field_limit" by (simp add: field_limit_def)
  with c have step: "csv_step init_reader (Ch c) = Inr (rd IN_FIELD [] [c])"
    by (simp add: init_reader_rd start_field_def add_char_def rd_def)
  have "\<exists>err. csv_events (rd IN_FIELD [] [c]) (ev_text g' @ ev_text (rest0 @ [LF])) = Inl err"
    using ns long g by (intro unquoted_overflow) (simp_all add: field_limit_def)
  moreover have "ev_text (univ_nl (csv_writerow (g # fs))) = Ch c # (ev_text g' @ ev_text (rest0 @ [LF]))"
    using w g c(1) by simp
  ultimately show ?thesis using step by (simp del: csv_step.simps ev_text_simps(3))
qed

lemma set_csv_join: "set (csv_join xs) \<subseteq> \<Union> (set ` set xs) \<union> {COMMA}"
  by (induction xs rule: csv_join.induct) auto

lemma read_continued_row:
  assumes "\<not> list_ex csv_special g" "length (f @ g) \<le> field_limit"
    and "\<forall>x \<in> set gs. CR \<notin> set x \<and> length x \<le> field_limit"
  shows "csv_events (rd IN_FIELD acc f) (ev_text (csv_join (map csv_quote_field (g # gs)) @ [LF])) =
           Inr ([acc @ (f @ g) # gs], init_reader)"
proof -
  have q: "csv_quote_field g = g" using assms(1) by (simp add: csv_quote_field_def)
  have b: "csv_events (rd IN_FIELD acc f) (ev_text g) = Inr ([], rd IN_FIELD acc (f @ g))"
    using assms(1,2) by (intro unquoted_body) simp_all
  have st: "IN_FIELD = START_FIELD \<and> f @ g = [] \<or> IN_FIELD = IN_FIELD \<or> IN_FIELD = QUOTE_IN_QUOTED_FIELD"
    by simp
  show ?thesis
  proof (cases "gs = []")
    case True
    have "csv_events (rd IN_FIELD acc (f @ g)) [Ch LF, EOL] = Inr ([acc @ [f @ g]], init_reader)"
      using sep_step [OF st, of LF acc] by (simp add: set_state_rd init_reader_rd)
    with b q True show ?thesis by (simp add: csv_events_append)
  next
    case False
    have rest: "csv_events (rd START_FIELD (acc @ [f @ g]) []) (ev_text (csv_join (map csv_quote_field gs) @ [LF])) =
                Inr ([acc @ (f @ g) # gs], init_reader)"
      using read_fields [of gs "acc @ [f @ g]"] assms(3) False by simp
    have "csv_step (rd IN_FIELD acc (f @ g)) (Ch COMMA) = Inr (rd START_FIELD (acc @ [f @ g]) [])"
      using sep_step [OF st, of COMMA acc] by simp
    with b q rest False show ?thesis by (simp add: csv_events_append csv_join_Cons)
  qed
qed

lemma plain_field_events:
  assumes "\<not> list_ex csv_special x" "length x \<le> field_limit"
  shows "csv_events (rd START_FIELD acc []) (ev_text x) =
           Inr ([], if x = [] then rd START_FIELD acc [] else rd IN_FIELD acc x)"
proof (cases x)
  case (Cons c x')
  have c: "c \<noteq> LF" "c \<noteq> CR" "c \<noteq> DQ" "c \<noteq> COMMA"
    using assms(1) Cons by (auto simp: csv_special_def)
  have "0 < field_limit" by (simp add: field_limit_def)
  with c have step: "csv_step (rd START_FIELD acc []) (Ch c) = Inr (rd IN_FIELD acc [c])"
    by (simp add: start_field_def add_char_def rd_def)
  have "csv_events (rd IN_FIELD acc [c]) (ev_text x') = Inr ([], rd IN_FIELD acc ([c] @ x'))"
    using assms Cons by (intro unquoted_body) simp_all
  with step Cons c(1) show ?thesis by (simp del: csv_step.simps)
qed simp

lemma plain_fields_events:
  "ls \<noteq> [] \<Longrightarrow> last ls \<noteq> [] \<Longrightarrow> \<forall>x \<in> set ls. \<not> list_ex csv_special x \<and> length x \<le> field_limit \<Longrightarrow>
   csv_events (rd START_FIELD acc []) (ev_text (csv_join ls)) = Inr ([], rd IN_FIELD (acc @ butlast ls) (last ls))"
proof (induction ls arbitrary: acc rule: csv_join.induct)
  case (2 x)
  then show ?case using plain_field_events [of x acc] by simp
next
  case (3 x y ys)
  have x: "\<not> list_ex csv_special x" "length x \<le> field_limit" using "3.prems"(3) by simp_all
  have st: "(if x = [] then START_FIELD else IN_FIELD) = START_FIELD \<and> x = [] \<or>
            (if x = [] then START_FIELD else IN_FIELD) = IN_FIELD \<or>
            (if x = [] then START_FIELD else IN_FIELD) = QUOTE_IN_QUOTED_FIELD"
    by simp
  have f: "csv_events (rd START_FIELD acc []) (ev_text x) = Inr ([], rd (if x = [] then START_FIELD else IN_FIELD) acc x)"
    using plain_field_events [OF x, of acc] by (cases "x = []") simp_all
  have sep: "csv_step (rd (if x = [] then START_FIELD else IN_FIELD) acc x) (Ch COMMA) =
             Inr (rd START_FIELD (acc @ [x]) [])"
    using sep_step [OF st, of COMMA acc] by simp
  have "csv_events (rd START_FIELD (acc @ [x]) []) (ev_text (csv_join (y # ys))) =
        Inr ([], rd IN_FIELD ((acc @ [x]) @ butlast (y # ys)) (last (y # ys)))"
    using "3.IH" [of "acc @ [x]"] "3.prems" by simp
  with f sep show ?case by (simp add: csv_events_append del: csv_step.simps)
qed simp

lemma clean_events:
  assumes "csv_clean t"
  shows "\<exists>rows. csv_events init_reader (ev_text (univ_nl t)) = Inr (rows, init_reader) \<and>
                csv_read t = Inr rows \<and> (univ_nl t = [] \<or> last (univ_nl t) = LF)"
proof -
  have tm: "univ_nl t = [] \<or> last (univ_nl t) = LF"
    using assms by (intro univ_nl_terminated) (simp add: csv_clean_def)
  then have le: "line_events (split_lines (univ_nl t)) = ev_text (univ_nl t)"
    by (rule line_events_terminated)
  from assms le obtain rows where "csv_events init_reader (ev_text (univ_nl t)) = Inr (rows, init_reader)"
    by (auto simp: csv_clean_def split: sum.splits)
  with le tm show ?thesis by (simp add: csv_read_def)
qed

subsection \<open>Properties of the store format\<close>

text \<open>
  C6 (roundtrip): appending a row written by \<^verbatim>\<open>writerow\<close> to a clean store and reading
  the whole file gives the rows read before, then the new row, each field read back with
  universal newlines applied (\<^verbatim>\<open>\r\n\<close> and \<^verbatim>\<open>\r\<close> become \<^verbatim>\<open>\n\<close>);
  commas, quotes and line feeds inside fields survive.
\<close>

theorem append_then_read:
  assumes "csv_clean t" and "\<forall>f \<in> set fs. length (univ_nl f) \<le> field_limit"
  shows "\<exists>rows. csv_read t = Inr rows \<and> csv_read (t @ csv_writerow fs) = Inr (rows @ [map univ_nl fs])"
  using assms by (rule csv_append_read_rows)

theorem append_then_read_witness:
  "csv_clean (csv_writerow [py ''x'']) \<and>
   length (univ_nl (py ''Joe,s'')) \<le> field_limit \<and> length (univ_nl (py ''a'' @ [CR])) \<le> field_limit \<and>
   (\<exists>rows. csv_read (csv_writerow [py ''x'']) = Inr rows \<and>
      csv_read (csv_writerow [py ''x''] @ csv_writerow [py ''Joe,s'', py ''a'' @ [CR]]) =
        Inr (rows @ [[py ''Joe,s'', py ''a'' @ [LF]]]))"
proof -
  have h1: "csv_clean (csv_writerow [py ''x''])"
    by (simp add: csv_clean_def csv_writerow_def csv_body_def csv_quote_field_def csv_special_def
                  split_lines_def line_events_def init_reader_def save_field_def add_char_def
                  start_field_def field_limit_def py_simps)
  have h2: "\<forall>f \<in> set [py ''Joe,s'', py ''a'' @ [CR]]. length (univ_nl f) \<le> field_limit"
    by (simp add: field_limit_def py_simps)
  have u: "map univ_nl [py ''Joe,s'', py ''a'' @ [CR]] = [py ''Joe,s'', py ''a'' @ [LF]]"
    by (simp add: py_simps)
  show ?thesis using h1 h2 append_then_read [OF h1 h2] unfolding u by simp
qed

text \<open>
  C7 (invariant): appending a written row keeps the store clean (terminated, no open
  quoted field), so every later append is read back as its own record.
\<close>

theorem append_keeps_clean:
  assumes "csv_clean t" and "\<forall>f \<in> set fs. length (univ_nl f) \<le> field_limit"
  shows "csv_clean (t @ csv_writerow fs)"
  using assms by (rule csv_clean_append_row)

theorem append_keeps_clean_witness:
  "csv_clean [] \<and> length (univ_nl (py ''x'')) \<le> field_limit \<and> csv_clean ([] @ csv_writerow [py ''x''])"
proof -
  have h2: "\<forall>f \<in> set [py ''x'']. length (univ_nl f) \<le> field_limit"
    by (simp add: field_limit_def py_simps)
  show ?thesis using csv_clean_Nil h2 append_keeps_clean [OF csv_clean_Nil h2] by simp
qed

text \<open>
  C8 (functional): on a store whose last line has no terminator (a record edited by hand,
  with plain fields), an appended row is glued onto that line: its first field is joined to
  the line's last field and the rest of the row follows in the same record, so the hand-made
  record and the submitted one are both lost as records of their own.
\<close>

theorem unterminated_store_merges_rows:
  assumes "csv_clean t" and "ls \<noteq> []" "last ls \<noteq> []"
    and "\<forall>x \<in> set ls. \<not> list_ex csv_special x \<and> length x \<le> field_limit"
    and "g \<noteq> []" "\<not> list_ex csv_special g" "length (last ls @ g) \<le> field_limit"
    and "\<forall>f \<in> set fs. length (univ_nl f) \<le> field_limit"
  shows "\<exists>rows. csv_read t = Inr rows \<and>
           csv_read (t @ csv_join ls @ csv_writerow (g # fs)) =
             Inr (rows @ [butlast ls @ (last ls @ g) # map univ_nl fs])"
proof -
  let ?U = "univ_nl t" and ?L = "csv_join ls" and ?B = "csv_join (map csv_quote_field (g # map univ_nl fs))"
  obtain rows where rows: "csv_events init_reader (ev_text ?U) = Inr (rows, init_reader)"
    and read_t: "csv_read t = Inr rows"
    using csv_append_row [OF assms(1) assms(8)] by blast
  have lne: "?L \<noteq> []"
    using assms(2,3) by (induction ls rule: csv_join.induct) auto
  have "c \<noteq> CR \<and> c \<noteq> LF" if "c \<in> set ?L" for c
    using that set_csv_join [of ls] assms(4) by (fastforce simp: csv_special_def list_ex_iff)
  then have ncr: "CR \<notin> set ?L" "LF \<notin> set ?L" "CR \<notin> set g"
    using assms(6) by (auto simp: csv_special_def list_ex_iff)
  have w: "univ_nl (csv_writerow (g # fs)) = ?B @ [LF]"
    using assms(5) ncr(3) by (simp add: univ_nl_writerow csv_body_def univ_nl_id)
  have hw: "hd (csv_writerow (g # fs)) \<noteq> LF" by (rule hd_writerow)
  have "univ_nl (?L @ csv_writerow (g # fs)) = ?L @ ?B @ [LF]"
    using hw ncr(1) w by (subst univ_nl_append) (auto simp: univ_nl_id dest: last_in_set)
  moreover have "univ_nl (t @ ?L @ csv_writerow (g # fs)) = ?U @ univ_nl (?L @ csv_writerow (g # fs))"
    using hd_in_set [OF lne] ncr(2) by (intro univ_nl_append) (metis hd_append2 lne)
  ultimately have u: "univ_nl (t @ ?L @ csv_writerow (g # fs)) = ?U @ ?L @ ?B @ [LF]" by simp
  obtain c L' where L: "?L = c # L'" using lne by (cases ?L) auto
  have c: "c \<noteq> LF" "c \<noteq> CR" using ncr(1,2) L by auto
  have gs: "\<forall>x \<in> set (map univ_nl fs). CR \<notin> set x \<and> length x \<le> field_limit"
    using assms(8) by (auto simp: CR_notin_univ_nl)
  have "csv_events (rd START_FIELD [] []) (ev_text (?L @ ?B @ [LF])) =
        Inr ([butlast ls @ (last ls @ g) # map univ_nl fs], init_reader)"
    using plain_fields_events [OF assms(2,3,4), of "[]"] read_continued_row [OF assms(6,7) gs]
    by (simp add: csv_events_append)
  then have e: "csv_events init_reader (ev_text (?L @ ?B @ [LF])) =
                Inr ([butlast ls @ (last ls @ g) # map univ_nl fs], init_reader)"
    using start_record_as_field [OF c] L c(1) by (simp del: csv_step.simps)
  have "line_events (split_lines (?U @ ?L @ ?B @ [LF])) = ev_text (?U @ ?L @ ?B @ [LF])"
    by (intro line_events_terminated) simp
  with u rows e read_t show ?thesis
    by (simp add: csv_read_def csv_events_append)
qed

theorem unterminated_store_merges_rows_witness:
  "csv_clean [] \<and> [py ''a'', py ''b''] \<noteq> [] \<and> last [py ''a'', py ''b''] \<noteq> [] \<and>
   \<not> list_ex csv_special (py ''a'') \<and> length (py ''a'') \<le> field_limit \<and>
   \<not> list_ex csv_special (py ''b'') \<and> length (py ''b'') \<le> field_limit \<and>
   py ''c'' \<noteq> [] \<and> \<not> list_ex csv_special (py ''c'') \<and>
   length (last [py ''a'', py ''b''] @ py ''c'') \<le> field_limit \<and>
   (\<exists>rows. csv_read [] = Inr rows \<and>
      csv_read ([] @ csv_join [py ''a'', py ''b''] @ csv_writerow [py ''c'']) =
        Inr (rows @ [butlast [py ''a'', py ''b''] @ (last [py ''a'', py ''b''] @ py ''c'') # map univ_nl []]))"
proof -
  have h: "\<forall>x \<in> set [py ''a'', py ''b'']. \<not> list_ex csv_special x \<and> length x \<le> field_limit"
    "\<not> list_ex csv_special (py ''c'')" "length (last [py ''a'', py ''b''] @ py ''c'') \<le> field_limit"
    by (simp_all add: csv_special_def field_limit_def py_simps)
  have n: "[py ''a'', py ''b''] \<noteq> []" "last [py ''a'', py ''b''] \<noteq> []" "py ''c'' \<noteq> []"
    by (simp_all add: py_simps)
  have f: "\<forall>f \<in> set ([] :: pystr list). length (univ_nl f) \<le> field_limit" by simp
  show ?thesis
    using unterminated_store_merges_rows [OF csv_clean_Nil n(1,2) h(1) n(3) h(2,3) f] csv_clean_Nil h n
    by simp
qed

text \<open>
  C9 (error): a stored field longer than the reader's field limit (131072 characters)
  makes every later read of the store fail: the write succeeds, the read raises
  \<^verbatim>\<open>_csv.Error\<close>.
\<close>

theorem overlong_field_breaks_reads:
  assumes "csv_clean t" and "\<not> list_ex csv_special g" and "field_limit < length g"
  shows "\<exists>err. csv_read (t @ csv_writerow (g # fs)) = Inl err"
proof -
  let ?U = "univ_nl t" and ?W = "univ_nl (csv_writerow (g # fs))"
  have "?U = [] \<or> last ?U = LF"
    using assms(1) by (intro univ_nl_terminated) (simp add: csv_clean_def)
  then have le: "line_events (split_lines ?U) = ev_text ?U"
    by (rule line_events_terminated)
  from assms(1) le obtain rows where rows: "csv_events init_reader (ev_text ?U) = Inr (rows, init_reader)"
    by (auto simp: csv_clean_def split: sum.splits)
  obtain err where e: "csv_events init_reader (ev_text ?W) = Inl err"
    using overflow_row_events [OF assms(2,3)] by blast
  have u: "univ_nl (t @ csv_writerow (g # fs)) = ?U @ ?W"
    using hd_writerow [of "g # fs"] by (intro univ_nl_append) simp
  then have "line_events (split_lines (univ_nl (t @ csv_writerow (g # fs)))) =
             ev_text (univ_nl (t @ csv_writerow (g # fs)))"
    using last_univ_nl_writerow [of "g # fs"] by (intro line_events_terminated) simp
  with rows e u show ?thesis by (simp add: csv_read_def csv_events_append)
qed

theorem overlong_field_breaks_reads_witness:
  "csv_clean [] \<and> \<not> list_ex csv_special (replicate 131073 97) \<and>
   field_limit < length (replicate 131073 (97::nat)) \<and>
   (\<exists>err. csv_read ([] @ csv_writerow [replicate 131073 97]) = Inl err)"
proof -
  have h2: "\<not> list_ex csv_special (replicate 131073 97)"
    by (simp add: list_ex_iff csv_special_def)
  have h3: "field_limit < length (replicate 131073 (97::nat))"
    by (simp add: field_limit_def)
  show ?thesis using csv_clean_Nil h2 h3 overlong_field_breaks_reads [OF csv_clean_Nil h2 h3] by blast
qed

text \<open>
  C24 (functional): a blank line between two clean parts of the store (as an editor saving
  with \<^verbatim>\<open>\r\n\<close> leaves it) is read as a record with no fields, between the rows of the
  two parts; the loop of \<^verbatim>\<open>cafes()\<close> passes it to the template like any other row.
\<close>

theorem blank_line_read_as_empty_row:
  assumes "csv_clean t" and "csv_clean u"
  shows "\<exists>rs us. csv_read t = Inr rs \<and> csv_read u = Inr us \<and>
                 csv_read (t @ [CR, LF] @ u) = Inr (rs @ [[]] @ us)"
proof -
  obtain rs where rs: "csv_events init_reader (ev_text (univ_nl t)) = Inr (rs, init_reader)"
    "csv_read t = Inr rs"
    using clean_events [OF assms(1)] by blast
  obtain us where us: "csv_events init_reader (ev_text (univ_nl u)) = Inr (us, init_reader)"
    "csv_read u = Inr us" and tm: "univ_nl u = [] \<or> last (univ_nl u) = LF"
    using clean_events [OF assms(2)] by blast
  have u: "univ_nl (t @ [CR, LF] @ u) = univ_nl t @ [LF] @ univ_nl u"
    by (subst univ_nl_append) simp_all
  have blank: "csv_events init_reader (ev_text [LF]) = Inr ([[]], init_reader)"
    by (simp add: init_reader_def)
  have bu: "csv_events init_reader (ev_text [LF] @ ev_text (univ_nl u)) = Inr ([[]] @ us, init_reader)"
    using blank us(1) by (simp add: csv_events_append del: ev_text_simps(2))
  have ev: "ev_text (LF # univ_nl u) = ev_text [LF] @ ev_text (univ_nl u)"
    using ev_text_simps(3) [of "[LF]" "univ_nl u"] by simp
  have "line_events (split_lines (univ_nl t @ [LF] @ univ_nl u)) = ev_text (univ_nl t @ [LF] @ univ_nl u)"
    using tm by (intro line_events_terminated) auto
  with u rs us bu ev show ?thesis
    by (simp add: csv_read_def csv_events_append del: ev_text_simps(2))
qed

theorem blank_line_read_as_empty_row_witness:
  "csv_clean (csv_writerow [py ''a'']) \<and> csv_clean (csv_writerow [py ''b'']) \<and>
   (\<exists>rs us. csv_read (csv_writerow [py ''a'']) = Inr rs \<and> csv_read (csv_writerow [py ''b'']) = Inr us \<and>
      csv_read (csv_writerow [py ''a''] @ [CR, LF] @ csv_writerow [py ''b'']) = Inr (rs @ [[]] @ us))"
proof -
  have l: "\<forall>f \<in> set [py ''a'']. length (univ_nl f) \<le> field_limit" "\<forall>f \<in> set [py ''b'']. length (univ_nl f) \<le> field_limit"
    by (simp_all add: field_limit_def py_simps)
  have c: "csv_clean (csv_writerow [py ''a''])" "csv_clean (csv_writerow [py ''b''])"
    using csv_clean_append_row [OF csv_clean_Nil l(1)] csv_clean_append_row [OF csv_clean_Nil l(2)] by simp_all
  show ?thesis using blank_line_read_as_empty_row [OF c] c by blast
qed

end
