(* ===== verification/CsvReader.thy ===== *)
theory CsvReader
  imports Csv
begin

text \<open>
  The reading loop of \<^verbatim>\<open>cafes()\<close> (\<^verbatim>\<open>src/main.py\<close> lines 76--78) as the program
  runs it: \<^verbatim>\<open>for row in csv_reader: cafe_data.append(row)\<close> calls the reader's
  \<^verbatim>\<open>__next__\<close> until it signals the end.  CPython's \<^verbatim>\<open>Reader_iternext\<close> resets the
  parser, then feeds it whole lines of the file (each line's characters, then the
  end-of-line marker) until the parser is back in \<open>START_RECORD\<close>; at the end of the
  input it returns the pending record if a field is open, and otherwise stops.
  \<open>Csv.csv_read\<close> folds the same parser over all events at once; \<open>cafes_loop_read\<close>
  shows the loop computes exactly that, and in particular always returns.
\<close>

text \<open>\<^verbatim>\<open>parse_process_char\<close> over the characters of one line, then over \<^verbatim>\<open>EOL\<close>.\<close>

fun csv_steps :: "reader \<Rightarrow> event list \<Rightarrow> py_error + reader" where
  "csv_steps r [] = Inr r"
| "csv_steps r (e # es) = (case csv_step r e of Inl err \<Rightarrow> Inl err | Inr r' \<Rightarrow> csv_steps r' es)"

definition feed_line :: "reader \<Rightarrow> pystr \<Rightarrow> py_error + reader" where
  "feed_line r l = csv_steps r (map Ch l @ [EOL])"

text \<open>The \<^verbatim>\<open>do { ... } while (self->state != START_RECORD)\<close> loop of
  \<^verbatim>\<open>Reader_iternext\<close>: the record, or \<open>None\<close> for \<^verbatim>\<open>StopIteration\<close>, and the lines
  not yet read.\<close>

fun reader_fill :: "reader \<Rightarrow> pystr list \<Rightarrow> py_error + (pystr list option \<times> pystr list)" where
  "reader_fill r [] =
     (if rfield r \<noteq> [] \<or> rstate r = IN_QUOTED_FIELD then Inr (Some (rfields r @ [rfield r]), [])
      else Inr (None, []))"
| "reader_fill r (l # ls) =
     (case feed_line r l of
        Inl err \<Rightarrow> Inl err
      | Inr r' \<Rightarrow> if rstate r' = START_RECORD then Inr (Some (rfields r'), ls) else reader_fill r' ls)"

definition reader_next :: "pystr list \<Rightarrow> py_error + (pystr list option \<times> pystr list)" where
  "reader_next ls = reader_fill init_reader ls"

text \<open>The \<^verbatim>\<open>for\<close> loop, accumulating \<^verbatim>\<open>cafe_data\<close>.  Nothing bounds its number
  of rounds syntactically, so it is a partial function: \<open>None\<close> would be a loop that
  never ends.\<close>

partial_function (option) cafes_loop ::
  "pystr list list \<Rightarrow> pystr list \<Rightarrow> (py_error + pystr list list) option" where
  "cafes_loop acc ls =
     (case reader_next ls of
        Inl err \<Rightarrow> Some (Inl err)
      | Inr (None, _) \<Rightarrow> Some (Inr acc)
      | Inr (Some row, ls') \<Rightarrow> cafes_loop (acc @ [row]) ls')"

text \<open>What remains to be read from reader state \<open>r\<close> and lines \<open>ls\<close>, in the terms of
  \<open>csv_read\<close>.\<close>

definition csv_lines :: "reader \<Rightarrow> pystr list \<Rightarrow> py_error + pystr list list" where
  "csv_lines r ls =
     (case csv_events r (line_events ls) of
        Inl err \<Rightarrow> Inl err
      | Inr (rows, r') \<Rightarrow> Inr (rows @ csv_finish r'))"

lemma csv_events_Chs:
  "csv_events r (map Ch l @ es) = (case csv_steps r (map Ch l) of Inl err \<Rightarrow> Inl err | Inr r' \<Rightarrow> csv_events r' es)"
  by (induction l arbitrary: r) (auto split: sum.splits)

lemma csv_steps_append:
  "csv_steps r (xs @ ys) = (case csv_steps r xs of Inl err \<Rightarrow> Inl err | Inr r' \<Rightarrow> csv_steps r' ys)"
  by (induction xs arbitrary: r) (auto split: sum.splits)

lemma csv_events_line:
  "csv_events r (line_events (l # ls)) =
     (case feed_line r l of
        Inl err \<Rightarrow> Inl err
      | Inr r' \<Rightarrow>
          if rstate r' = START_RECORD then
            (case csv_events init_reader (line_events ls) of
               Inl err \<Rightarrow> Inl err
             | Inr (rows, r'') \<Rightarrow> Inr (rfields r' # rows, r''))
          else csv_events r' (line_events ls))"
  by (simp add: line_events_def feed_line_def csv_events_Chs csv_steps_append split: sum.splits)

lemma csv_lines_fill:
  "csv_lines r ls =
     (case reader_fill r ls of
        Inl err \<Rightarrow> Inl err
      | Inr (None, _) \<Rightarrow> Inr []
      | Inr (Some row, ls') \<Rightarrow>
          (case csv_lines init_reader ls' of Inl err \<Rightarrow> Inl err | Inr rows \<Rightarrow> Inr (row # rows)))"
proof (induction ls arbitrary: r)
  case Nil
  then show ?case
    by (simp add: csv_lines_def line_events_def csv_finish_def init_reader_def)
next
  case (Cons l ls)
  have eq: "csv_lines r (l # ls) =
     (case feed_line r l of
        Inl err \<Rightarrow> Inl err
      | Inr r' \<Rightarrow> if rstate r' = START_RECORD
                 then (case csv_lines init_reader ls of Inl err \<Rightarrow> Inl err | Inr rows \<Rightarrow> Inr (rfields r' # rows))
                 else csv_lines r' ls)"
    by (simp add: csv_lines_def csv_events_line split: sum.splits prod.splits)
  show ?case
  proof (cases "feed_line r l")
    case (Inl err)
    with eq show ?thesis by simp
  next
    case (Inr r')
    show ?thesis
    proof (cases "rstate r' = START_RECORD")
      case True
      with eq Inr show ?thesis by simp
    next
      case False
      with eq Inr Cons.IH [of r'] show ?thesis by simp
    qed
  qed
qed

lemma reader_fill_rest: "reader_fill r ls = Inr (x, ls') \<Longrightarrow> length ls' \<le> length ls"
  by (induction r ls rule: reader_fill.induct) (auto split: if_splits sum.splits)

lemma reader_next_progress:
  "reader_next ls = Inr (Some row, ls') \<Longrightarrow> length ls' < length ls"
proof (cases ls)
  case Nil
  then show "reader_next ls = Inr (Some row, ls') \<Longrightarrow> length ls' < length ls"
    by (simp add: reader_next_def init_reader_def)
next
  case (Cons l rest)
  assume h: "reader_next ls = Inr (Some row, ls')"
  with Cons show ?thesis
    by (auto simp: reader_next_def split: sum.splits if_splits dest!: reader_fill_rest)
qed

lemma cafes_loop_lines:
  "cafes_loop acc ls = Some (case csv_lines init_reader ls of Inl err \<Rightarrow> Inl err | Inr rows \<Rightarrow> Inr (acc @ rows))"
proof (induction "length ls" arbitrary: acc ls rule: less_induct)
  case less
  show ?case
  proof (cases "reader_next ls")
    case (Inl err)
    then show ?thesis
      by (simp add: cafes_loop.simps [of acc ls] csv_lines_fill [of init_reader ls] reader_next_def)
  next
    case (Inr res)
    then obtain x ls' where res: "reader_next ls = Inr (x, ls')" by (cases res) auto
    show ?thesis
    proof (cases x)
      case None
      with res show ?thesis
        by (simp add: cafes_loop.simps [of acc ls] csv_lines_fill [of init_reader ls] reader_next_def)
    next
      case (Some row)
      with res have "length ls' < length ls" by (simp add: reader_next_progress)
      then have "cafes_loop (acc @ [row]) ls' =
          Some (case csv_lines init_reader ls' of Inl err \<Rightarrow> Inl err | Inr rows \<Rightarrow> Inr ((acc @ [row]) @ rows))"
        by (rule less.hyps)
      with res Some show ?thesis
        by (simp add: cafes_loop.simps [of acc ls] csv_lines_fill [of init_reader ls] reader_next_def
                 split: sum.splits)
    qed
  qed
qed

subsection \<open>Properties of the reading loop\<close>

text \<open>
  C22 (termination): the \<^verbatim>\<open>for row in csv_reader\<close> loop of \<^verbatim>\<open>cafes()\<close> ends on
  every file: each round that yields a record consumes at least one line, and the round
  after the last line stops.
\<close>

theorem cafes_loop_terminates: "\<exists>y. cafes_loop acc ls = Some y"
  using cafes_loop_lines by blast

text \<open>
  C23 (equivalence): the loop, run on the lines of the file as text mode delivers them,
  collects exactly the rows \<open>csv_read\<close> describes (the model of \<^verbatim>\<open>cafes()\<close> used in
  \<open>App\<close>), or raises the same error.
\<close>

theorem cafes_loop_read: "cafes_loop [] (split_lines (univ_nl t)) = Some (csv_read t)"
proof -
  have "csv_read t = csv_lines init_reader (split_lines (univ_nl t))"
    by (simp add: csv_read_def csv_lines_def)
  then show ?thesis
    by (simp add: cafes_loop_lines split: sum.splits)
qed

end
