(* ===== verification/Utf8.thy ===== *)
theory Utf8
  imports Csv "HOL-Library.Word"
begin

text \<open>
  The encoding layer of \<^verbatim>\<open>cafe-data.csv\<close>.  Both \<^verbatim>\<open>open\<close> calls of
  \<^verbatim>\<open>src/main.py\<close> (lines 74 and 86) pass \<^verbatim>\<open>encoding="utf-8"\<close> with the default strict
  error handling: the text written is encoded by CPython's UTF-8 codec, which refuses lone
  surrogates (\<^verbatim>\<open>UnicodeEncodeError\<close>), and the file read is decoded by it, which
  refuses ill-formed bytes (\<^verbatim>\<open>UnicodeDecodeError\<close>): overlong forms, surrogates, values
  above U+10FFFF, stray or missing continuation bytes.  Bytes are \<open>8 word\<close>s.
\<close>

type_synonym byte = "8 word"

text \<open>The byte with value \<open>k\<close> (\<open>k < 256\<close> wherever it is used).\<close>

definition byte_of :: "nat \<Rightarrow> byte" where
  "byte_of k = of_nat k"

text \<open>Unicode scalar values: the code points a \<^verbatim>\<open>str\<close> may hold that UTF-8 can encode.\<close>

definition scalar :: "nat \<Rightarrow> bool" where
  "scalar c \<longleftrightarrow> c < 0x110000 \<and> \<not> (0xD800 \<le> c \<and> c \<le> 0xDFFF)"

text \<open>The encoder (CPython \<^verbatim>\<open>_PyUnicode_AsUTF8String\<close>, one code point).\<close>

definition utf8_char :: "nat \<Rightarrow> byte list" where
  "utf8_char c =
     (if c < 0x80 then [byte_of c]
      else if c < 0x800 then [byte_of (0xC0 + c div 64), byte_of (0x80 + c mod 64)]
      else if c < 0x10000 then
        [byte_of (0xE0 + c div 4096), byte_of (0x80 + c div 64 mod 64), byte_of (0x80 + c mod 64)]
      else
        [byte_of (0xF0 + c div 262144), byte_of (0x80 + c div 4096 mod 64),
         byte_of (0x80 + c div 64 mod 64), byte_of (0x80 + c mod 64)])"

definition utf8_encode :: "pystr \<Rightarrow> py_error + byte list" where
  "utf8_encode s = (if list_all scalar s then Inr (concat (map utf8_char s)) else Inl UnicodeEncodeError)"

text \<open>The decoder's checks (CPython \<^verbatim>\<open>utf8_decode\<close>, after the Unicode standard's table
  of well-formed byte sequences): a continuation byte, and the tighter range of the byte after
  the leads E0, ED, F0 and F4.\<close>

definition cont :: "nat \<Rightarrow> bool" where
  "cont b \<longleftrightarrow> 0x80 \<le> b \<and> b \<le> 0xBF"

definition second_ok :: "nat \<Rightarrow> nat \<Rightarrow> bool" where
  "second_ok x b \<longleftrightarrow>
     (if x = 0xE0 then 0xA0 else if x = 0xF0 then 0x90 else 0x80) \<le> b \<and>
     b \<le> (if x = 0xED then 0x9F else if x = 0xF4 then 0x8F else 0xBF)"

definition push :: "nat \<Rightarrow> py_error + pystr \<Rightarrow> py_error + pystr" where
  "push c r = (case r of Inl e \<Rightarrow> Inl e | Inr cs \<Rightarrow> Inr (c # cs))"

function utf8_decode :: "byte list \<Rightarrow> py_error + pystr" where
  "utf8_decode [] = Inr []"
| "utf8_decode (b # bs) =
     (let x = unat b in
      if x < 0x80 then push x (utf8_decode bs)
      else if 0xC2 \<le> x \<and> x \<le> 0xDF then
        (case bs of
           b1 # r \<Rightarrow>
             if second_ok x (unat b1) then push ((x - 0xC0) * 64 + (unat b1 - 0x80)) (utf8_decode r)
             else Inl UnicodeDecodeError
         | [] \<Rightarrow> Inl UnicodeDecodeError)
      else if 0xE0 \<le> x \<and> x \<le> 0xEF then
        (case bs of
           b1 # b2 # r \<Rightarrow>
             if second_ok x (unat b1) \<and> cont (unat b2)
             then push ((x - 0xE0) * 4096 + (unat b1 - 0x80) * 64 + (unat b2 - 0x80)) (utf8_decode r)
             else Inl UnicodeDecodeError
         | _ \<Rightarrow> Inl UnicodeDecodeError)
      else if 0xF0 \<le> x \<and> x \<le> 0xF4 then
        (case bs of
           b1 # b2 # b3 # r \<Rightarrow>
             if second_ok x (unat b1) \<and> cont (unat b2) \<and> cont (unat b3)
             then push ((x - 0xF0) * 262144 + (unat b1 - 0x80) * 4096 + (unat b2 - 0x80) * 64 +
                        (unat b3 - 0x80)) (utf8_decode r)
             else Inl UnicodeDecodeError
         | _ \<Rightarrow> Inl UnicodeDecodeError)
      else Inl UnicodeDecodeError)"
  by pat_completeness auto
termination
  by (relation "measure length") auto

text \<open>The store as bytes.  \<open>cafes()\<close> decodes the file it opens with
  \<^verbatim>\<open>encoding="utf-8"\<close> (line 74) and reads the text; \<open>add()\<close> encodes the row
  \<^verbatim>\<open>writerow\<close> produces and appends it to the file opened with \<^verbatim>\<open>"a"\<close> and
  \<^verbatim>\<open>encoding="utf-8"\<close> (line 86).  A decoding error is reported before the reader's own
  errors here; the program decodes in chunks as it reads, so it may meet a reader error first,
  and the claims below only say that some error is raised.\<close>

definition read_store :: "byte list \<Rightarrow> py_error + pystr list list" where
  "read_store bs = (case utf8_decode bs of Inl e \<Rightarrow> Inl e | Inr t \<Rightarrow> csv_read t)"

definition append_store :: "byte list \<Rightarrow> pystr list \<Rightarrow> py_error + byte list" where
  "append_store bs row =
     (case utf8_encode (csv_writerow row) of Inl e \<Rightarrow> Inl e | Inr new \<Rightarrow> Inr (bs @ new))"

lemma unat_byte_of: "k < 256 \<Longrightarrow> unat (byte_of k) = k"
  by (simp add: byte_of_def unat_of_nat)

lemma decode_seq1: "unat b0 < 0x80 \<Longrightarrow> utf8_decode (b0 # bs) = push (unat b0) (utf8_decode bs)"
  by simp

lemma decode_seq2:
  "0xC2 \<le> unat b0 \<Longrightarrow> unat b0 \<le> 0xDF \<Longrightarrow> second_ok (unat b0) (unat b1) \<Longrightarrow>
   utf8_decode (b0 # b1 # bs) = push ((unat b0 - 0xC0) * 64 + (unat b1 - 0x80)) (utf8_decode bs)"
  by (simp add: Let_def)

lemma decode_seq3:
  "0xE0 \<le> unat b0 \<Longrightarrow> unat b0 \<le> 0xEF \<Longrightarrow> second_ok (unat b0) (unat b1) \<Longrightarrow> cont (unat b2) \<Longrightarrow>
   utf8_decode (b0 # b1 # b2 # bs) =
     push ((unat b0 - 0xE0) * 4096 + (unat b1 - 0x80) * 64 + (unat b2 - 0x80)) (utf8_decode bs)"
  by (simp add: Let_def)

lemma decode_seq4:
  "0xF0 \<le> unat b0 \<Longrightarrow> unat b0 \<le> 0xF4 \<Longrightarrow> second_ok (unat b0) (unat b1) \<Longrightarrow> cont (unat b2) \<Longrightarrow>
   cont (unat b3) \<Longrightarrow>
   utf8_decode (b0 # b1 # b2 # b3 # bs) =
     push ((unat b0 - 0xF0) * 262144 + (unat b1 - 0x80) * 4096 + (unat b2 - 0x80) * 64 + (unat b3 - 0x80))
       (utf8_decode bs)"
  by (simp add: Let_def)

lemma decode_char_1:
  assumes "c < 0x80"
  shows "utf8_decode (utf8_char c @ bs) = push c (utf8_decode bs)"
proof -
  have "utf8_char c = [byte_of c]" using assms by (simp add: utf8_char_def)
  moreover have "unat (byte_of c) = c" using assms by (simp add: unat_byte_of)
  ultimately show ?thesis using assms by (simp add: decode_seq1)
qed

lemma decode_char_2:
  assumes "0x80 \<le> c" "c < 0x800"
  shows "utf8_decode (utf8_char c @ bs) = push c (utf8_decode bs)"
proof -
  have q: "2 \<le> c div 64" "c div 64 < 32" using assms by simp_all
  have e: "utf8_char c = [byte_of (0xC0 + c div 64), byte_of (0x80 + c mod 64)]"
    using assms by (simp add: utf8_char_def)
  have u: "unat (byte_of (0xC0 + c div 64)) = 0xC0 + c div 64"
          "unat (byte_of (0x80 + c mod 64)) = 0x80 + c mod 64"
    using q by (simp_all add: unat_byte_of)
  have r: "c mod 64 \<le> 63" by simp
  have "(0xC0 + c div 64 - 0xC0) * 64 + (0x80 + c mod 64 - 0x80) = c" by simp
  with q r show ?thesis
    by (simp add: e u decode_seq2 second_ok_def)
qed

lemma decode_char_3:
  assumes "0x800 \<le> c" "c < 0x10000" "scalar c"
  shows "utf8_decode (utf8_char c @ bs) = push c (utf8_decode bs)"
proof -
  have q: "c div 4096 < 16" using assms by simp
  have m: "c div 64 mod 64 \<le> 63" "c mod 64 \<le> 63" by simp_all
  have e: "utf8_char c = [byte_of (0xE0 + c div 4096), byte_of (0x80 + c div 64 mod 64),
                          byte_of (0x80 + c mod 64)]"
    using assms by (simp add: utf8_char_def)
  have u: "unat (byte_of (0xE0 + c div 4096)) = 0xE0 + c div 4096"
          "unat (byte_of (0x80 + c div 64 mod 64)) = 0x80 + c div 64 mod 64"
          "unat (byte_of (0x80 + c mod 64)) = 0x80 + c mod 64"
    using q m by (simp_all add: unat_byte_of)
  have lo: "c div 4096 = 0 \<Longrightarrow> 32 \<le> c div 64 mod 64"
    using assms by simp
  have hi: "c div 64 mod 64 < 32" if h: "c div 4096 = 13"
  proof -
    have m4: "c mod 4096 = 64 * (c div 64 mod 64) + c mod 64"
      using mod_mult2_eq [of c 64 64] by simp
    have d: "c = 4096 * (c div 4096) + c mod 4096" "c mod 4096 < 4096" by simp_all
    then have "53248 \<le> c" "c < 57344" using h by linarith+
    then have "c < 55296" using assms(3) by (simp add: scalar_def)
    with d h have "c mod 4096 < 2048" by linarith
    with m4 show ?thesis by linarith
  qed
  have s: "second_ok (0xE0 + c div 4096) (0x80 + c div 64 mod 64)"
    using q m lo hi by (auto simp: second_ok_def)
  have v: "(c div 4096) * 4096 + (c div 64 mod 64) * 64 + c mod 64 = c"
  proof -
    have "c mod 4096 = 64 * (c div 64 mod 64) + c mod 64"
      using mod_mult2_eq [of c 64 64] by simp
    moreover have "c = 4096 * (c div 4096) + c mod 4096" by simp
    ultimately show ?thesis by linarith
  qed
  show ?thesis
    using q m s v by (simp add: e u decode_seq3 cont_def)
qed

lemma decode_char_4:
  assumes "0x10000 \<le> c" "scalar c"
  shows "utf8_decode (utf8_char c @ bs) = push c (utf8_decode bs)"
proof -
  have c: "c < 0x110000" using assms by (simp add: scalar_def)
  have q: "c div 262144 \<le> 4" using c by simp
  have m: "c div 4096 mod 64 \<le> 63" "c div 64 mod 64 \<le> 63" "c mod 64 \<le> 63" by simp_all
  have e: "utf8_char c = [byte_of (0xF0 + c div 262144), byte_of (0x80 + c div 4096 mod 64),
                          byte_of (0x80 + c div 64 mod 64), byte_of (0x80 + c mod 64)]"
    using assms by (simp add: utf8_char_def)
  have u: "unat (byte_of (0xF0 + c div 262144)) = 0xF0 + c div 262144"
          "unat (byte_of (0x80 + c div 4096 mod 64)) = 0x80 + c div 4096 mod 64"
          "unat (byte_of (0x80 + c div 64 mod 64)) = 0x80 + c div 64 mod 64"
          "unat (byte_of (0x80 + c mod 64)) = 0x80 + c mod 64"
    using q m by (simp_all add: unat_byte_of)
  have lo: "c div 262144 = 0 \<Longrightarrow> 16 \<le> c div 4096 mod 64"
    using assms by simp
  have hi: "c div 4096 mod 64 < 16" if h: "c div 262144 = 4"
  proof -
    have m4: "c mod 262144 = 4096 * (c div 4096 mod 64) + c mod 4096"
      using mod_mult2_eq [of c 4096 64] by simp
    have d: "c = 262144 * (c div 262144) + c mod 262144" by simp
    with h c have "c mod 262144 < 65536" by linarith
    with m4 show ?thesis by linarith
  qed
  have s: "second_ok (0xF0 + c div 262144) (0x80 + c div 4096 mod 64)"
    using q m lo hi by (auto simp: second_ok_def)
  have v: "(c div 262144) * 262144 + (c div 4096 mod 64) * 4096 + (c div 64 mod 64) * 64 + c mod 64 = c"
  proof -
    have "c mod 4096 = 64 * (c div 64 mod 64) + c mod 64"
      using mod_mult2_eq [of c 64 64] by simp
    moreover have "c mod 262144 = 4096 * (c div 4096 mod 64) + c mod 4096"
      using mod_mult2_eq [of c 4096 64] by simp
    moreover have "c = 262144 * (c div 262144) + c mod 262144" by simp
    ultimately show ?thesis by linarith
  qed
  show ?thesis
    using q m s v by (simp add: e u decode_seq4 cont_def)
qed

lemma decode_char:
  assumes "scalar c"
  shows "utf8_decode (utf8_char c @ bs) = push c (utf8_decode bs)"
proof -
  consider "c < 0x80" | "0x80 \<le> c" "c < 0x800" | "0x800 \<le> c" "c < 0x10000" | "0x10000 \<le> c"
    by linarith
  then show ?thesis
    by cases (use assms decode_char_1 decode_char_2 decode_char_3 decode_char_4 in blast)+
qed

lemma decode_encoded:
  "list_all scalar s \<Longrightarrow>
   utf8_decode (concat (map utf8_char s) @ bs) =
     (case utf8_decode bs of Inl e \<Rightarrow> Inl e | Inr cs \<Rightarrow> Inr (s @ cs))"
  by (induction s) (auto simp: decode_char push_def split: sum.splits)

lemma length_utf8_char: "1 \<le> length (utf8_char c) \<and> length (utf8_char c) \<le> 4"
  by (simp add: utf8_char_def)

lemma length_encoded:
  "length s \<le> length (concat (map utf8_char s)) \<and> length (concat (map utf8_char s)) \<le> 4 * length s"
proof (induction s)
  case (Cons c s)
  then show ?case using length_utf8_char [of c] by simp
qed simp

lemma set_csv_escape: "set (csv_escape f) = set f"
  by (induction f) (auto simp: csv_escape_def)

lemma set_csv_writerow: "set (csv_writerow fs) \<subseteq> set (concat fs) \<union> {DQ, COMMA, CR, LF}"
proof -
  have q: "set (csv_quote_field f) \<subseteq> set f \<union> {DQ}" for f
    by (auto simp: csv_quote_field_def set_csv_escape)
  have "set (csv_join (map csv_quote_field fs)) \<subseteq> set (concat fs) \<union> {DQ, COMMA}"
    using set_csv_join [of "map csv_quote_field fs"] q by fastforce
  then show ?thesis
    by (auto simp: csv_writerow_def csv_body_def)
qed

lemma scalar_writerow:
  "list_all (list_all scalar) fs \<Longrightarrow> list_all scalar (csv_writerow fs)"
proof -
  assume "list_all (list_all scalar) fs"
  then have "\<forall>c \<in> set (concat fs). scalar c"
    by (auto simp: list_all_iff)
  moreover have "\<forall>c \<in> {DQ, COMMA, CR, LF}. scalar c"
    by (simp add: scalar_def)
  ultimately show ?thesis
    using set_csv_writerow [of fs] by (auto simp: list_all_iff)
qed

lemma encode_append:
  "list_all scalar s \<Longrightarrow> list_all scalar u \<Longrightarrow>
   utf8_encode (s @ u) = Inr (concat (map utf8_char s) @ concat (map utf8_char u))"
  by (simp add: utf8_encode_def)

subsection \<open>Properties of the encoding layer\<close>

text \<open>
  C30 (refinement): the byte-level store refines the code-point model of \<open>Csv\<close> and
  \<open>App\<close>: when the store holds the UTF-8 encoding of a text, appending a row of scalar
  values leaves the encoding of the text followed by the written row, and reading the bytes
  gives what reading the text gives, before and after.  A byte the codec rejects, such as the
  Latin-1 \<^verbatim>\<open>\xe9\<close> of a file edited in another encoding, makes the whole listing fail.
\<close>

theorem store_bytes_refine:
  assumes "utf8_encode t = Inr bs" and "list_all (list_all scalar) row"
  shows "\<exists>bs'. append_store bs row = Inr bs' \<and> utf8_encode (t @ csv_writerow row) = Inr bs' \<and>
               read_store bs = csv_read t \<and> read_store bs' = csv_read (t @ csv_writerow row) \<and>
               read_store (bs @ [byte_of 0xE9, byte_of 0x0A]) = Inl UnicodeDecodeError"
proof -
  have t: "list_all scalar t" and bs: "bs = concat (map utf8_char t)"
    using assms(1) by (auto simp: utf8_encode_def split: if_splits)
  have w: "list_all scalar (csv_writerow row)"
    by (rule scalar_writerow [OF assms(2)])
  have e: "utf8_encode (t @ csv_writerow row) = Inr (bs @ concat (map utf8_char (csv_writerow row)))"
    using encode_append [OF t w] bs by simp
  have d1: "utf8_decode bs = Inr t"
    using decode_encoded [OF t, of "[]"] bs by simp
  have d2: "utf8_decode (bs @ concat (map utf8_char (csv_writerow row))) = Inr (t @ csv_writerow row)"
    using decode_encoded [OF t, of "concat (map utf8_char (csv_writerow row))"]
          decode_encoded [OF w, of "[]"] bs by simp
  have bad: "utf8_decode [byte_of 0xE9, byte_of 0x0A] = Inl UnicodeDecodeError"
    by (simp add: unat_byte_of second_ok_def)
  have d3: "utf8_decode (bs @ [byte_of 0xE9, byte_of 0x0A]) = Inl UnicodeDecodeError"
    using decode_encoded [OF t, of "[byte_of 0xE9, byte_of 0x0A]"] bad bs by simp
  show ?thesis
    using e d1 d2 d3 w by (simp add: append_store_def read_store_def utf8_encode_def)
qed

theorem store_bytes_refine_witness:
  "utf8_encode [] = Inr [] \<and> list_all (list_all scalar) [[0x63, 0x61, 0x66, 0xE9]] \<and>
   (\<exists>bs'. append_store [] [[0x63, 0x61, 0x66, 0xE9]] = Inr bs' \<and>
      utf8_encode ([] @ csv_writerow [[0x63, 0x61, 0x66, 0xE9]]) = Inr bs' \<and>
      read_store [] = csv_read [] \<and>
      read_store bs' = csv_read ([] @ csv_writerow [[0x63, 0x61, 0x66, 0xE9]]) \<and>
      read_store ([] @ [byte_of 0xE9, byte_of 0x0A]) = Inl UnicodeDecodeError)"
proof -
  have e: "utf8_encode [] = Inr []" by (simp add: utf8_encode_def)
  have r: "list_all (list_all scalar) [[0x63, 0x61, 0x66, 0xE9]]" by (simp add: scalar_def)
  show ?thesis
    using store_bytes_refine [OF e r] e r by simp
qed

end
