(* ===== verification/Form.thy ===== *)
theory Form
  imports Rating TimeFormat
begin

text \<open>
  \<^verbatim>\<open>CafeForm\<close> (\<^verbatim>\<open>src/main.py\<close> lines 45--63) and the WTForms validation that
  \<^verbatim>\<open>form.validate_on_submit()\<close> (line 85) runs on it.  A field's data is the first value
  posted under its name, \<open>None\<close> when nothing was posted (\<open>field_data\<close>).  WTForms'
  \<^verbatim>\<open>Field.validate\<close> first runs \<^verbatim>\<open>pre_validate\<close> (for a \<^verbatim>\<open>SelectField\<close> with
  the default \<^verbatim>\<open>coerce=str\<close>: the data must equal \<^verbatim>\<open>str(value)\<close> of some choice,
  else "Not a valid choice."), then the validator chain in order (\<open>run_chain\<close>):
  \<^verbatim>\<open>DataRequired\<close> passes on data that is not blank after \<^verbatim>\<open>strip()\<close>, and otherwise
  clears the field's errors and stops the chain with "This field is required.";
  \<^verbatim>\<open>Regexp\<close> and \<^verbatim>\<open>URL\<close> add their message and let the chain go on.  The
  \<^verbatim>\<open>URL()\<close> validator's own test (a regular expression and a host-name check inside
  WTForms) is a parameter \<open>url_ok\<close> of the model.  The form is valid when no field has an
  error and the CSRF token (checked by Flask-WTF against the session) is valid.
\<close>

datatype validator = DataRequired | URL | Regexp rx pystr

datatype field_kind = StringField | URLField | SelectField "(int \<times> pystr) list" | SubmitField

record form_field =
  fname :: string
  fkind :: field_kind
  fvalidators :: "validator list"

definition required_message :: pystr where
  "required_message = py ''This field is required.''"

definition url_message :: pystr where
  "url_message = py ''Invalid URL.''"

definition choice_message :: pystr where
  "choice_message = py ''Not a valid choice.''"

text \<open>\<^verbatim>\<open>StopValidation\<close> raised by \<^verbatim>\<open>DataRequired\<close> (after clearing the errors), or a
  \<^verbatim>\<open>ValidationError\<close>, or success.\<close>

datatype outcome = Pass | Invalid pystr | StopClear pystr

fun run_validator :: "(pystr \<Rightarrow> bool) \<Rightarrow> validator \<Rightarrow> pystr option \<Rightarrow> outcome" where
  "run_validator url_ok DataRequired d =
     (case d of Some s \<Rightarrow> if py_strip s \<noteq> [] then Pass else StopClear required_message
              | None \<Rightarrow> StopClear required_message)"
| "run_validator url_ok URL d =
     (if url_ok (case d of None \<Rightarrow> [] | Some s \<Rightarrow> s) then Pass else Invalid url_message)"
| "run_validator url_ok (Regexp r msg) d =
     (if py_re_match r (case d of None \<Rightarrow> [] | Some s \<Rightarrow> s) then Pass else Invalid msg)"

fun run_chain :: "(pystr \<Rightarrow> bool) \<Rightarrow> validator list \<Rightarrow> pystr option \<Rightarrow> pystr list \<Rightarrow> pystr list" where
  "run_chain url_ok [] d errs = errs"
| "run_chain url_ok (v # vs) d errs =
     (case run_validator url_ok v d of
        Pass \<Rightarrow> run_chain url_ok vs d errs
      | Invalid m \<Rightarrow> run_chain url_ok vs d (errs @ [m])
      | StopClear m \<Rightarrow> [m])"

definition pre_validate :: "field_kind \<Rightarrow> pystr option \<Rightarrow> pystr list" where
  "pre_validate k d =
     (case k of
        SelectField choices \<Rightarrow>
          if list_ex (\<lambda>(v, _). d = Some (py_str_of_int v)) choices then [] else [choice_message]
      | _ \<Rightarrow> [])"

definition field_errors :: "(pystr \<Rightarrow> bool) \<Rightarrow> form_field \<Rightarrow> pystr option \<Rightarrow> pystr list" where
  "field_errors url_ok f d = run_chain url_ok (fvalidators f) d (pre_validate (fkind f) d)"

definition cafe_form :: "form_field list" where
  "cafe_form =
     [\<lparr>fname = ''name'', fkind = StringField, fvalidators = [DataRequired]\<rparr>,
      \<lparr>fname = ''cafe_location'', fkind = URLField, fvalidators = [DataRequired, URL]\<rparr>,
      \<lparr>fname = ''opening'', fkind = StringField,
       fvalidators = [DataRequired, Regexp time_regex time_message]\<rparr>,
      \<lparr>fname = ''closing'', fkind = StringField,
       fvalidators = [DataRequired, Regexp time_regex time_message]\<rparr>,
      \<lparr>fname = ''coffee_rating'', fkind = SelectField coffee_rating_list, fvalidators = [DataRequired]\<rparr>,
      \<lparr>fname = ''wifi_rating'', fkind = SelectField wifi_rating_list, fvalidators = [DataRequired]\<rparr>,
      \<lparr>fname = ''power_socket_rating'', fkind = SelectField power_rating_list,
       fvalidators = [DataRequired]\<rparr>,
      \<lparr>fname = ''submit'', fkind = SubmitField, fvalidators = []\<rparr>]"

type_synonym form_data = "(string \<times> pystr) list"

definition field_data :: "form_data \<Rightarrow> string \<Rightarrow> pystr option" where
  "field_data fd n = map_of fd n"

definition form_errors :: "(pystr \<Rightarrow> bool) \<Rightarrow> form_data \<Rightarrow> (string \<times> pystr list) list" where
  "form_errors url_ok fd = map (\<lambda>f. (fname f, field_errors url_ok f (field_data fd (fname f)))) cafe_form"

text \<open>\<^verbatim>\<open>validate_on_submit()\<close> on a POST: the CSRF field and every declared field pass.\<close>

definition validate_on_submit :: "(pystr \<Rightarrow> bool) \<Rightarrow> bool \<Rightarrow> form_data \<Rightarrow> bool" where
  "validate_on_submit url_ok csrf_ok fd \<longleftrightarrow> csrf_ok \<and> list_all (\<lambda>(n, es). es = []) (form_errors url_ok fd)"


text \<open>Which form field carries which category's score (lines 60--62, read back at 87--89).\<close>

primrec rating_field :: "category \<Rightarrow> string" where
  "rating_field Coffee = ''coffee_rating''"
| "rating_field Wifi = ''wifi_rating''"
| "rating_field Power = ''power_socket_rating''"

text \<open>What \<^verbatim>\<open>DataRequired\<close> accepts: data present and not blank after \<^verbatim>\<open>strip()\<close>.\<close>

definition nonblank :: "pystr option \<Rightarrow> bool" where
  "nonblank d = (case d of None \<Rightarrow> False | Some s \<Rightarrow> py_strip s \<noteq> [])"

text \<open>The spec's example submission (section 8), used below.\<close>

definition joe_form :: form_data where
  "joe_form =
     [(''name'', py ''Joe''), (''cafe_location'', py ''https://maps.example/joe''),
      (''opening'', py ''8AM''), (''closing'', py ''5:30 PM''), (''coffee_rating'', py ''3''),
      (''wifi_rating'', py ''0''), (''power_socket_rating'', py ''5''), (''submit'', py ''Submit'')]"

subsection \<open>Each kind of field\<close>

lemma run_validator_required: "run_validator url_ok DataRequired d = (if nonblank d then Pass else StopClear required_message)"
  by (cases d) (auto simp: nonblank_def)

lemma string_field_ok:
  "fkind f = StringField \<Longrightarrow> fvalidators f = [DataRequired] \<Longrightarrow>
   field_errors url_ok f d = [] \<longleftrightarrow> nonblank d"
  by (simp add: field_errors_def pre_validate_def run_validator_required required_message_def py_simps
           del: run_validator.simps(1))

lemma url_field_ok:
  "fkind f = URLField \<Longrightarrow> fvalidators f = [DataRequired, URL] \<Longrightarrow>
   field_errors url_ok f d = [] \<longleftrightarrow> nonblank d \<and> url_ok (the d)"
  by (auto simp: field_errors_def pre_validate_def run_validator_required required_message_def
                 url_message_def nonblank_def py_simps simp del: run_validator.simps(1)
           split: option.splits)

lemma time_field_ok:
  "fkind f = StringField \<Longrightarrow> fvalidators f = [DataRequired, Regexp time_regex time_message] \<Longrightarrow>
   field_errors url_ok f d = [] \<longleftrightarrow> nonblank d \<and> time_format_ok (the d)"
  by (auto simp: field_errors_def pre_validate_def run_validator_required required_message_def
                 time_format_ok_def nonblank_def py_simps simp del: run_validator.simps(1)
           split: option.splits)

lemma time_field_errors:
  "fkind f = StringField \<Longrightarrow> fvalidators f = [DataRequired, Regexp time_regex time_message] \<Longrightarrow>
   field_errors url_ok f d =
     (if \<not> nonblank d then [required_message]
      else if time_format_ok (the d) then [] else [time_message])"
  by (auto simp: field_errors_def pre_validate_def run_validator_required time_format_ok_def
                 nonblank_def simp del: run_validator.simps(1) split: option.splits)

lemma select_field_ok:
  "fkind f = SelectField ch \<Longrightarrow> fvalidators f = [DataRequired] \<Longrightarrow>
   field_errors url_ok f d = [] \<longleftrightarrow> (\<exists>v s. (v, s) \<in> set ch \<and> d = Some (py_str_of_int v))"
proof -
  assume k: "fkind f = SelectField ch" and v: "fvalidators f = [DataRequired]"
  show ?thesis
  proof (cases "\<exists>v s. (v, s) \<in> set ch \<and> d = Some (py_str_of_int v)")
    case True
    then obtain v s where vs: "(v, s) \<in> set ch" "d = Some (py_str_of_int v)" by blast
    have nb: "nonblank d"
      using vs by (simp add: nonblank_def py_strip_str_of_int py_str_of_int_ne)
    have "pre_validate (fkind f) d = []"
      using k vs by (auto simp: pre_validate_def list_ex_iff)
    with v nb True show ?thesis
      by (simp add: field_errors_def run_validator_required del: run_validator.simps(1))
  next
    case False
    then have "pre_validate (fkind f) d = [choice_message]"
      using k by (auto simp: pre_validate_def list_ex_iff)
    then show ?thesis
      using False v by (auto simp: field_errors_def run_validator_required choice_message_def
                                   required_message_def py_simps simp del: run_validator.simps(1))
  qed
qed

lemma rating_key_set: "fst ` set (rating_list c) = {(if c = Coffee then 1 else 0)..5}"
proof -
  have "fst ` set (rating_list c) = set (map fst (rating_list c))" by simp
  also have "\<dots> = set ((if c = Coffee then [] else [0]) @ py_range 1 6)"
    by (simp only: rating_keys)
  also have "\<dots> = {(if c = Coffee then 1 else 0)..5}"
    by (cases c) auto
  finally show ?thesis .
qed

lemma rating_choice_iff:
  "(\<exists>v s. (v, s) \<in> set (rating_list c) \<and> d = Some (py_str_of_int v)) \<longleftrightarrow>
   (\<exists>v. d = Some (py_str_of_int v) \<and> (if c = Coffee then 1 else 0) \<le> v \<and> v \<le> 5)"
proof -
  have "(\<exists>v s. (v, s) \<in> set (rating_list c) \<and> d = Some (py_str_of_int v)) \<longleftrightarrow>
        (\<exists>v. v \<in> fst ` set (rating_list c) \<and> d = Some (py_str_of_int v))"
    by force
  then show ?thesis by (simp add: rating_key_set conj_commute)
qed

lemma form_valid_iff:
  "validate_on_submit url_ok csrf_ok fd \<longleftrightarrow>
     csrf_ok \<and> nonblank (field_data fd ''name'') \<and>
     nonblank (field_data fd ''cafe_location'') \<and> url_ok (the (field_data fd ''cafe_location'')) \<and>
     nonblank (field_data fd ''opening'') \<and> time_format_ok (the (field_data fd ''opening'')) \<and>
     nonblank (field_data fd ''closing'') \<and> time_format_ok (the (field_data fd ''closing'')) \<and>
     (\<exists>v. field_data fd ''coffee_rating'' = Some (py_str_of_int v) \<and> 1 \<le> v \<and> v \<le> 5) \<and>
     (\<exists>v. field_data fd ''wifi_rating'' = Some (py_str_of_int v) \<and> 0 \<le> v \<and> v \<le> 5) \<and>
     (\<exists>v. field_data fd ''power_socket_rating'' = Some (py_str_of_int v) \<and> 0 \<le> v \<and> v \<le> 5)"
proof -
  have sel: "\<And>c d. (\<exists>v s. (v, s) \<in> set (rating_list c) \<and> d = Some (py_str_of_int v)) \<longleftrightarrow>
      (\<exists>v. d = Some (py_str_of_int v) \<and> (if c = Coffee then 1 else 0) \<le> v \<and> v \<le> 5)"
    by (rule rating_choice_iff)
  have c: "\<And>d. (\<exists>v s. (v, s) \<in> set coffee_rating_list \<and> d = Some (py_str_of_int v)) \<longleftrightarrow>
                (\<exists>v. d = Some (py_str_of_int v) \<and> 1 \<le> v \<and> v \<le> 5)"
    using sel [of Coffee] by simp
  have w: "\<And>d. (\<exists>v s. (v, s) \<in> set wifi_rating_list \<and> d = Some (py_str_of_int v)) \<longleftrightarrow>
                (\<exists>v. d = Some (py_str_of_int v) \<and> 0 \<le> v \<and> v \<le> 5)"
    using sel [of Wifi] by simp
  have p: "\<And>d. (\<exists>v s. (v, s) \<in> set power_rating_list \<and> d = Some (py_str_of_int v)) \<longleftrightarrow>
                (\<exists>v. d = Some (py_str_of_int v) \<and> 0 \<le> v \<and> v \<le> 5)"
    using sel [of Power] by simp
  have sub: "field_errors url_ok \<lparr>fname = ''submit'', fkind = SubmitField, fvalidators = []\<rparr> d = []" for d
    by (simp add: field_errors_def pre_validate_def)
  show ?thesis
    unfolding validate_on_submit_def form_errors_def cafe_form_def
    by (simp add: string_field_ok url_field_ok time_field_ok select_field_ok c w p sub conj_commute
             del: ex_simps)
qed

lemma joe_form_valid: "validate_on_submit (\<lambda>_. True) True joe_form"
proof -
  have digits: "[51] = py_str_of_int 3" "[48] = py_str_of_int 0" "[53] = py_str_of_int 5"
    by (simp_all add: py_str_of_int_def nat_digits.simps)
  show ?thesis
    unfolding form_valid_iff
    by (simp add: joe_form_def field_data_def nonblank_def py_strip_def py_isspace_def time_eval
                  digits py_str_of_int_eq_iff)
qed

subsection \<open>Properties of the form\<close>

text \<open>
  C10 (functional): \<^verbatim>\<open>validate_on_submit()\<close> on \<^verbatim>\<open>CafeForm\<close> succeeds exactly when the
  CSRF token is valid, name is not blank, the location is not blank and passes the URL test,
  both times are not blank and match the time pattern, and each rating field holds the decimal
  form of a score in that category's range (coffee 1--5, wifi and power 0--5).
\<close>

theorem validate_on_submit_char:
  "validate_on_submit url_ok csrf_ok fd \<longleftrightarrow>
     csrf_ok \<and> nonblank (field_data fd ''name'') \<and>
     nonblank (field_data fd ''cafe_location'') \<and> url_ok (the (field_data fd ''cafe_location'')) \<and>
     nonblank (field_data fd ''opening'') \<and> time_format_ok (the (field_data fd ''opening'')) \<and>
     nonblank (field_data fd ''closing'') \<and> time_format_ok (the (field_data fd ''closing'')) \<and>
     (\<exists>v. field_data fd ''coffee_rating'' = Some (py_str_of_int v) \<and> 1 \<le> v \<and> v \<le> 5) \<and>
     (\<exists>v. field_data fd ''wifi_rating'' = Some (py_str_of_int v) \<and> 0 \<le> v \<and> v \<le> 5) \<and>
     (\<exists>v. field_data fd ''power_socket_rating'' = Some (py_str_of_int v) \<and> 0 \<le> v \<and> v \<le> 5)"
  by (rule form_valid_iff)

text \<open>
  C11 (safety): on a submission that passes validation, every rating field holds a string
  that \<^verbatim>\<open>int()\<close> parses and whose score has an entry in that category's list, so
  \<^verbatim>\<open>add()\<close> never raises on \<^verbatim>\<open>int()\<close> and never stores \<^verbatim>\<open>None\<close> for a rating.
\<close>

theorem valid_form_rating:
  assumes "validate_on_submit url_ok csrf_ok fd"
  shows "\<exists>d n s. field_data fd (rating_field c) = Some d \<and> py_int d = Inr n \<and> rating_option c n = Some s"
proof -
  from assms obtain v where v: "field_data fd (rating_field c) = Some (py_str_of_int v)"
    "(if c = Coffee then 1 else 0) \<le> v" "v \<le> 5"
    unfolding form_valid_iff by (cases c) auto
  then have "rating_option c v = Some (concat (replicate (nat v) (glyph c))) \<or>
             (v = 0 \<and> c \<noteq> Coffee \<and> rating_option c v = Some sentinel)"
    by (auto simp: rating_option_refines spec_encode_def split: if_splits)
  with v show ?thesis by (auto simp: py_int_str_of_int)
qed


theorem valid_form_rating_witness:
  "validate_on_submit (\<lambda>_. True) True joe_form \<and>
   field_data joe_form (rating_field Wifi) = Some [48] \<and> py_int [48] = Inr 0 \<and>
   rating_option Wifi 0 = Some sentinel"
proof -
  have "\<exists>d n s. field_data joe_form (rating_field Wifi) = Some d \<and> py_int d = Inr n \<and>
                rating_option Wifi n = Some s"
    by (rule valid_form_rating [OF joe_form_valid])
  moreover have "[48] = py_str_of_int 0"
    by (simp add: py_str_of_int_def nat_digits.simps)
  ultimately show ?thesis
    using joe_form_valid
    by (auto simp: joe_form_def field_data_def py_simps py_int_str_of_int rating_option_refines
                   spec_encode_def)
qed

text \<open>
  C12 (error): on every submission each time field gets exactly one message or none:
  "This field is required." when it is missing or blank after \<^verbatim>\<open>strip()\<close> (the
  pattern is not tried), "Incorrect format. Correct format: 9PM or 5:30AM" when it is not
  blank and the pattern rejects it, and none when the pattern accepts it.
\<close>

theorem time_field_messages:
  "map_of (form_errors url_ok fd) ''opening'' =
     Some (if \<not> nonblank (field_data fd ''opening'') then [required_message]
           else if time_format_ok (the (field_data fd ''opening'')) then [] else [time_message]) \<and>
   map_of (form_errors url_ok fd) ''closing'' =
     Some (if \<not> nonblank (field_data fd ''closing'') then [required_message]
           else if time_format_ok (the (field_data fd ''closing'')) then [] else [time_message])"
  by (simp add: form_errors_def cafe_form_def time_field_errors del: run_validator.simps)

end
