(* ===== verification/App.thy ===== *)
theory App
  imports Form Csv
begin

text \<open>
  The application's views: its configuration (\<^verbatim>\<open>src/main.py\<close> lines 22--23), the file
  system state it touches (the file \<^verbatim>\<open>cafe-data.csv\<close>), and the three view functions
  \<^verbatim>\<open>home\<close>, \<^verbatim>\<open>cafes\<close> and \<^verbatim>\<open>add\<close> (lines 67--100).  A view returns its outcome (an
  exception or a response) and the file system state after it.  The routing of requests to
  views, and runs of requests, are in \<open>Server\<close>.
\<close>

subsection \<open>Configuration and state\<close>

record app_config =
  secret_key :: "pystr option"

text \<open>\<^verbatim>\<open>app.config["SECRET_KEY"] = os.environ.get("SECRET_KEY")\<close>.\<close>

definition config_of_env :: "(string \<rightharpoonup> pystr) \<Rightarrow> app_config" where
  "config_of_env env = \<lparr>secret_key = env ''SECRET_KEY''\<rparr>"

text \<open>The file \<^verbatim>\<open>cafe-data.csv\<close> (\<open>None\<close>: absent) and whether the process may write it.\<close>

record app_state =
  csv_file :: "pystr option"
  csv_writable :: bool

text \<open>The request methods Flask distinguishes for these routes.\<close>

datatype http_method = GET | HEAD | POST | OPTIONS | OtherMethod string

datatype response =
    RenderIndex
  | RenderCafes "pystr list list"
  | RenderAdd "(string \<times> pystr list) list"
  | Redirect string
  | HttpStatus nat
  | Allow "http_method list"
  | DebuggerPage py_error

type_synonym outcome_state = "(py_error + response) \<times> app_state"

definition csrf_key_message :: pystr where
  "csrf_key_message = py ''A secret key is required to use CSRF.''"

definition null_session_message :: pystr where
  "null_session_message = py ''The session is unavailable because no secret key was set.''"

subsection \<open>The handlers\<close>

text \<open>\<^verbatim>\<open>home()\<close>, lines 67--69.\<close>

definition home :: "app_state \<Rightarrow> outcome_state" where
  "home st = (Inr RenderIndex, st)"

text \<open>\<^verbatim>\<open>cafes()\<close>, lines 72--79: open for reading (\<^verbatim>\<open>FileNotFoundError\<close> when absent),
  read every row with \<^verbatim>\<open>csv.reader\<close>, render them.\<close>

definition cafes :: "app_state \<Rightarrow> outcome_state" where
  "cafes st =
     (case csv_file st of
        None \<Rightarrow> (Inl FileNotFoundError, st)
      | Some t \<Rightarrow> (case csv_read t of
                    Inl e \<Rightarrow> (Inl e, st)
                  | Inr rows \<Rightarrow> (Inr (RenderCafes rows), st)))"

text \<open>\<^verbatim>\<open>open("cafe-data.csv", "a", newline="")\<close>: creates the file when absent.\<close>

definition open_append :: "app_state \<Rightarrow> py_error + app_state" where
  "open_append st =
     (if csv_writable st
      then Inr (st\<lparr>csv_file := Some (case csv_file st of None \<Rightarrow> [] | Some t \<Rightarrow> t)\<rparr>)
      else Inl PermissionError)"

text \<open>\<^verbatim>\<open>dict(<list>).get(int(form.<field>.data))\<close>, lines 87--89; \<^verbatim>\<open>int(None)\<close>
  raises \<^verbatim>\<open>TypeError\<close>.\<close>

definition rating_cell :: "category \<Rightarrow> form_data \<Rightarrow> py_error + pystr option" where
  "rating_cell c fd =
     (case field_data fd (rating_field c) of
        None \<Rightarrow> Inl TypeError
      | Some d \<Rightarrow> (case py_int d of Inl e \<Rightarrow> Inl e | Inr n \<Rightarrow> Inr (rating_option c n)))"

text \<open>\<^verbatim>\<open>new_row\<close>, lines 87--96; \<^verbatim>\<open>writerow\<close> writes a \<^verbatim>\<open>None\<close> entry as an empty
  field (\<open>csv_cell\<close>).\<close>

definition new_row :: "form_data \<Rightarrow> py_error + pystr list" where
  "new_row fd =
     (case rating_cell Coffee fd of Inl e \<Rightarrow> Inl e | Inr co \<Rightarrow>
      case rating_cell Wifi fd of Inl e \<Rightarrow> Inl e | Inr wo \<Rightarrow>
      case rating_cell Power fd of Inl e \<Rightarrow> Inl e | Inr so \<Rightarrow>
      Inr [the (field_data fd ''name''), the (field_data fd ''cafe_location''),
           py_replace [SP] [] (the (field_data fd ''opening'')),
           py_replace [SP] [] (the (field_data fd ''closing'')),
           csv_cell co, csv_cell wo, csv_cell so])"

text \<open>
  \<^verbatim>\<open>add()\<close>, lines 82--100.  Building \<^verbatim>\<open>CafeForm()\<close> generates a CSRF token, which
  needs a secret key: with none configured Flask-WTF raises \<^verbatim>\<open>RuntimeError\<close>, and with
  an empty one the session is a null session whose first write raises \<^verbatim>\<open>RuntimeError\<close>;
  both on every request to \<^verbatim>\<open>/add\<close>.  A valid POST opens the file for appending
  (creating it), computes the row, writes it and redirects to the listing; anything else
  renders the form, with the errors of a POST.
\<close>

definition add :: "app_config \<Rightarrow> (pystr \<Rightarrow> bool) \<Rightarrow> app_state \<Rightarrow> http_method \<Rightarrow> form_data \<Rightarrow>
                   bool \<Rightarrow> outcome_state" where
  "add cfg url_ok st m fd csrf_ok =
     (if secret_key cfg = None then (Inl (RuntimeError csrf_key_message), st)
      else if secret_key cfg = Some [] then (Inl (RuntimeError null_session_message), st)
      else if m = POST \<and> validate_on_submit url_ok csrf_ok fd then
        (case open_append st of
           Inl e \<Rightarrow> (Inl e, st)
         | Inr st1 \<Rightarrow>
             (case new_row fd of
                Inl e \<Rightarrow> (Inl e, st1)
              | Inr row \<Rightarrow>
                  (Inr (Redirect ''/cafes''),
                   st1\<lparr>csv_file := Some (the (csv_file st1) @ csv_writerow row)\<rparr>)))
      else (Inr (RenderAdd (if m = POST then form_errors url_ok fd else [])), st))"

text \<open>The submission of spec section 8, the row \<^verbatim>\<open>add()\<close> builds from it, and
  the line \<^verbatim>\<open>writerow\<close> appends for it.\<close>

definition spec_example_form :: form_data where
  "spec_example_form =
     [(''name'', py ''Joe's''), (''cafe_location'', py ''https://maps.example/x''),
      (''opening'', py ''8AM''), (''closing'', py ''5:30PM''), (''coffee_rating'', py ''3''),
      (''wifi_rating'', py ''0''), (''power_socket_rating'', py ''5'')]"

definition spec_example_row :: "pystr list" where
  "spec_example_row =
     [py ''Joe's'', py ''https://maps.example/x'', py ''8AM'', py ''5:30PM'',
      [0x2615, 0xFE0F, 0x2615, 0xFE0F, 0x2615, 0xFE0F], [0x2718], replicate 5 0x1F50C]"

definition spec_example_line :: pystr where
  "spec_example_line =
     py ''Joe's,https://maps.example/x,8AM,5:30PM,'' @
     [0x2615, 0xFE0F, 0x2615, 0xFE0F, 0x2615, 0xFE0F, COMMA, 0x2718, COMMA] @
     replicate 5 0x1F50C @ [CR, LF]"

subsection \<open>Shape of the row and of a step\<close>

lemma length_univ_nl_le: "length (univ_nl s) \<le> length s"
  by (induction s rule: univ_nl.induct) auto

lemma spec_encode_length: "spec_encode c n = Some s \<Longrightarrow> 1 \<le> length s \<and> length s \<le> 10"
  by (cases c) (auto simp: spec_encode_def sentinel_def split: if_splits)

lemma valid_rating_cell:
  assumes "validate_on_submit url_ok csrf_ok fd"
  obtains v s where "field_data fd (rating_field c) = Some (py_str_of_int v)"
    "spec_encode c v = Some s" "rating_cell c fd = Inr (Some s)"
proof -
  from assms obtain v where v: "field_data fd (rating_field c) = Some (py_str_of_int v)"
    "(if c = Coffee then 1 else 0) \<le> v" "v \<le> 5"
    unfolding form_valid_iff by (cases c) auto
  then obtain s where s: "spec_encode c v = Some s"
    by (cases "1 \<le> v") (auto simp: spec_encode_def split: if_splits)
  with v show ?thesis
    using that by (simp add: rating_cell_def py_int_str_of_int rating_option_refines)
qed

lemma valid_new_row:
  assumes "validate_on_submit url_ok csrf_ok fd"
  shows "\<exists>co wo so. new_row fd =
           Inr [the (field_data fd ''name''), the (field_data fd ''cafe_location''),
                removeAll SP (the (field_data fd ''opening'')),
                removeAll SP (the (field_data fd ''closing'')), co, wo, so] \<and>
           (\<exists>v. field_data fd ''coffee_rating'' = Some (py_str_of_int v) \<and> spec_encode Coffee v = Some co) \<and>
           (\<exists>v. field_data fd ''wifi_rating'' = Some (py_str_of_int v) \<and> spec_encode Wifi v = Some wo) \<and>
           (\<exists>v. field_data fd ''power_socket_rating'' = Some (py_str_of_int v) \<and> spec_encode Power v = Some so)"
proof -
  obtain vc co where c: "field_data fd ''coffee_rating'' = Some (py_str_of_int vc)"
    "spec_encode Coffee vc = Some co" "rating_cell Coffee fd = Inr (Some co)"
    using valid_rating_cell [OF assms, of Coffee] by auto
  obtain vw wo where w: "field_data fd ''wifi_rating'' = Some (py_str_of_int vw)"
    "spec_encode Wifi vw = Some wo" "rating_cell Wifi fd = Inr (Some wo)"
    using valid_rating_cell [OF assms, of Wifi] by auto
  obtain vp so where p: "field_data fd ''power_socket_rating'' = Some (py_str_of_int vp)"
    "spec_encode Power vp = Some so" "rating_cell Power fd = Inr (Some so)"
    using valid_rating_cell [OF assms, of Power] by auto
  show ?thesis
    using c w p by (auto simp: new_row_def csv_cell_def py_replace_char_empty)
qed

lemma encoded_univ_nl: "spec_encode c n = Some s \<Longrightarrow> univ_nl s = s"
  by (cases c) (auto simp: spec_encode_def sentinel_def univ_nl_id split: if_splits)

lemma nonblank_the: "nonblank d \<Longrightarrow> d = Some (the d)"
  by (cases d) (simp_all add: nonblank_def)

lemma clean_read: "csv_clean t \<Longrightarrow> \<exists>rows. csv_read t = Inr rows"
  using csv_append_read_rows [of t "[]"] by auto

lemma new_row_length: "new_row fd = Inr row \<Longrightarrow> length row = 7"
  by (auto simp: new_row_def split: sum.splits)

lemma csv_read_Nil: "csv_read [] = Inr []"
  by (simp add: csv_read_def split_lines_def line_events_def csv_finish_def init_reader_def)

subsection \<open>The example of spec section 8\<close>

lemma spec_example_valid:
  "url_ok (py ''https://maps.example/x'') \<Longrightarrow> validate_on_submit url_ok True spec_example_form"
proof -
  assume u: "url_ok (py ''https://maps.example/x'')"
  have digits: "[51] = py_str_of_int 3" "[48] = py_str_of_int 0" "[53] = py_str_of_int 5"
    by (simp_all add: py_str_of_int_def nat_digits.simps)
  show ?thesis
    unfolding form_valid_iff
    using u by (simp add: spec_example_form_def field_data_def nonblank_def py_strip_def py_isspace_def
                          time_eval digits py_str_of_int_eq_iff)
qed

lemma spec_example_new_row: "new_row spec_example_form = Inr spec_example_row"
  by (simp add: new_row_def rating_cell_def spec_example_form_def spec_example_row_def field_data_def
      py_int_def py_strip_def py_isspace_def py_isdigit_ascii_def dec_value_def rating_option_refines
      spec_encode_def csv_cell_def py_replace_char_empty py_simps sentinel_def)

lemma spec_example_writerow: "csv_writerow spec_example_row = spec_example_line"
  by (simp add: csv_writerow_def csv_body_def csv_quote_field_def csv_special_def spec_example_row_def
                spec_example_line_def py_simps)

lemma spec_example_fields:
  "\<forall>f \<in> set spec_example_row. length (univ_nl f) \<le> field_limit"
  "map univ_nl spec_example_row = spec_example_row"
  by (simp_all add: spec_example_row_def field_limit_def py_simps)

lemma empty_form_invalid: "\<not> validate_on_submit url_ok c []"
  unfolding form_valid_iff by (simp add: field_data_def nonblank_def)

subsection \<open>Properties of the row\<close>

text \<open>
  C26 (bounds): the row a valid submission produces has seven cells; each stored time is
  3 to 9 code points long (up to \<^verbatim>\<open>12:59\tPM\n\<close>: a tab and a final newline pass the
  pattern and are not removed), and each rating cell 1 to 10 code points (five two-code-point
  coffee glyphs at most).
\<close>

theorem stored_cells_bounded:
  assumes "validate_on_submit url_ok c fd" and "new_row fd = Inr row"
  shows "length row = 7 \<and> 3 \<le> length (row ! 2) \<and> length (row ! 2) \<le> 9 \<and>
         3 \<le> length (row ! 3) \<and> length (row ! 3) \<le> 9 \<and>
         list_all (\<lambda>s. 1 \<le> length s \<and> length s \<le> 10) (drop 4 row)"
proof -
  obtain co wo so where r: "row =
           [the (field_data fd ''name''), the (field_data fd ''cafe_location''),
            removeAll SP (the (field_data fd ''opening'')),
            removeAll SP (the (field_data fd ''closing'')), co, wo, so]" and
    e: "\<exists>v. spec_encode Coffee v = Some co" "\<exists>v. spec_encode Wifi v = Some wo"
       "\<exists>v. spec_encode Power v = Some so"
    using valid_new_row [OF assms(1)] assms(2) by auto
  have t: "time_format_ok (the (field_data fd ''opening''))" "time_format_ok (the (field_data fd ''closing''))"
    using assms(1) unfolding form_valid_iff by simp_all
  show ?thesis
    using r time_stored_length [OF t(1)] time_stored_length [OF t(2)] e
    by (auto dest!: spec_encode_length)
qed

theorem stored_cells_bounded_witness:
  "validate_on_submit (\<lambda>_. True) True spec_example_form \<and> new_row spec_example_form = Inr spec_example_row \<and>
   length spec_example_row = 7 \<and> length (spec_example_row ! 3) = 6 \<and> length (spec_example_row ! 4) = 6"
proof -
  have v: "validate_on_submit (\<lambda>_. True) True spec_example_form"
    by (rule spec_example_valid) simp
  show ?thesis
    using stored_cells_bounded [OF v spec_example_new_row] v spec_example_new_row
    by (simp add: spec_example_row_def py_simps)
qed

end
