(* ===== verification/Server.thy ===== *)
theory Server
  imports App
begin

text \<open>
  How Flask serves the views of \<open>App\<close>.  Its URL map (the \<^verbatim>\<open>@app.route\<close> decorators of
  \<^verbatim>\<open>src/main.py\<close> lines 67, 72 and 82) gives each path its methods, to which Werkzeug adds
  HEAD wherever GET is allowed and Flask adds OPTIONS; an OPTIONS request is answered with
  the allowed methods without running the view, HEAD runs the view as GET does, another
  method is 405 and an unknown path 404 (\<open>handle\<close>).  An exception a view raises reaches
  the client according to how the program is served (\<open>serve\<close>): run as a script
  (lines 103--104, \<^verbatim>\<open>app.run(debug=True)\<close>) the Werkzeug debugger shows it; under a
  WSGI server it is a 500 response (\<open>respond\<close>).  \<open>run\<close> plays a sequence of requests and
  \<open>reach\<close> is the set of states requests of a given kind reach.
\<close>

subsection \<open>Requests and routing\<close>

datatype request = Request http_method string form_data bool

text \<open>Methods of each rule of the URL map, as Werkzeug completes them.\<close>

definition allowed_methods :: "string \<Rightarrow> http_method list option" where
  "allowed_methods path =
     (if path = ''/'' \<or> path = ''/cafes'' then Some [GET, HEAD, OPTIONS]
      else if path = ''/add'' then Some [GET, HEAD, POST, OPTIONS]
      else None)"

text \<open>The view function each rule dispatches to.\<close>

definition view :: "app_config \<Rightarrow> (pystr \<Rightarrow> bool) \<Rightarrow> app_state \<Rightarrow> http_method \<Rightarrow> string \<Rightarrow>
                    form_data \<Rightarrow> bool \<Rightarrow> outcome_state" where
  "view cfg url_ok st m path fd csrf_ok =
     (if path = ''/'' then home st
      else if path = ''/cafes'' then cafes st
      else add cfg url_ok st m fd csrf_ok)"

text \<open>Flask's \<^verbatim>\<open>dispatch_request\<close> with \<^verbatim>\<open>provide_automatic_options\<close>.\<close>

definition handle :: "app_config \<Rightarrow> (pystr \<Rightarrow> bool) \<Rightarrow> app_state \<Rightarrow> request \<Rightarrow> outcome_state" where
  "handle cfg url_ok st req =
     (case req of Request m path fd csrf_ok \<Rightarrow>
        (case allowed_methods path of
           None \<Rightarrow> (Inr (HttpStatus 404), st)
         | Some ms \<Rightarrow>
             if m \<notin> set ms then (Inr (HttpStatus 405), st)
             else if m = OPTIONS then (Inr (Allow ms), st)
             else view cfg url_ok st m path fd csrf_ok))"

subsection \<open>Serving and runs\<close>

text \<open>How the program is served: as a script (\<^verbatim>\<open>if __name__ == "__main__"\<close>, the
  development server with \<^verbatim>\<open>debug=True\<close>) or imported by a WSGI server.\<close>

datatype server_mode = DebugServer | WsgiServer

text \<open>An uncaught exception of a view: the debugger's traceback page, or a 500 Internal
  Server Error.\<close>

definition serve :: "server_mode \<Rightarrow> py_error + response \<Rightarrow> response" where
  "serve mode r =
     (case r of
        Inr x \<Rightarrow> x
      | Inl e \<Rightarrow> (case mode of DebugServer \<Rightarrow> DebuggerPage e | WsgiServer \<Rightarrow> HttpStatus 500))"

text \<open>The responses of a production deployment, which runs use.\<close>

definition respond :: "py_error + response \<Rightarrow> response" where
  "respond r = serve WsgiServer r"

fun run :: "app_config \<Rightarrow> (pystr \<Rightarrow> bool) \<Rightarrow> app_state \<Rightarrow> request list \<Rightarrow> response list \<times> app_state" where
  "run cfg url_ok st [] = ([], st)"
| "run cfg url_ok st (req # reqs) =
     (let (r, st') = handle cfg url_ok st req;
          (rs, st'') = run cfg url_ok st' reqs
      in (respond r # rs, st''))"

inductive reach :: "app_config \<Rightarrow> (pystr \<Rightarrow> bool) \<Rightarrow> (request \<Rightarrow> bool) \<Rightarrow> app_state \<Rightarrow> app_state \<Rightarrow> bool"
  for cfg url_ok ok st0 where
  reach_init: "reach cfg url_ok ok st0 st0"
| reach_step: "reach cfg url_ok ok st0 st \<Longrightarrow> ok req \<Longrightarrow> handle cfg url_ok st req = (r, st') \<Longrightarrow>
               reach cfg url_ok ok st0 st'"

text \<open>Requests whose posted values all fit in a CSV field.\<close>

definition bounded_request :: "request \<Rightarrow> bool" where
  "bounded_request req =
     (case req of Request m path fd csrf_ok \<Rightarrow> list_all (\<lambda>(n, v). length v \<le> field_limit) fd)"

text \<open>The text of the file, the empty text when it is absent.\<close>

definition stored :: "app_state \<Rightarrow> pystr" where
  "stored st = (case csv_file st of None \<Rightarrow> [] | Some t \<Rightarrow> t)"

text \<open>The store invariant: an absent file, or a clean one (\<open>csv_clean\<close>).\<close>

definition store_ok :: "app_state \<Rightarrow> bool" where
  "store_ok st = (case csv_file st of None \<Rightarrow> True | Some t \<Rightarrow> csv_clean t)"

text \<open>The shape invariant: the store is clean and every row it holds has the seven
  columns \<^verbatim>\<open>add()\<close> writes.\<close>

definition store_rows_ok :: "app_state \<Rightarrow> bool" where
  "store_rows_ok st \<longleftrightarrow>
     store_ok st \<and>
     (case csv_file st of
        None \<Rightarrow> True
      | Some t \<Rightarrow> (case csv_read t of Inl _ \<Rightarrow> False | Inr rows \<Rightarrow> list_all (\<lambda>r. length r = 7) rows))"

subsection \<open>Steps of the server\<close>

lemmas handle_simps = handle_def allowed_methods_def view_def

lemmas respond_simps = respond_def serve_def

lemma handle_cases:
  assumes "handle cfg url_ok st req = (r, st')"
  shows "st' = st \<or>
         (\<exists>fd c row. req = Request POST ''/add'' fd c \<and> validate_on_submit url_ok c fd \<and>
            csv_writable st \<and> new_row fd = Inr row \<and>
            st' = st\<lparr>csv_file := Some (stored st @ csv_writerow row)\<rparr>)"
proof (cases req)
  case (Request m path fd c)
  show ?thesis
  proof (cases "path = ''/add'' \<and> m = POST \<and> validate_on_submit url_ok c fd \<and> csv_writable st \<and>
                secret_key cfg \<noteq> None \<and> secret_key cfg \<noteq> Some []")
    case True
    then obtain row where "new_row fd = Inr row"
      using valid_new_row by blast
    with True Request assms show ?thesis
      by (auto simp: handle_simps add_def open_append_def stored_def)
  next
    case False
    with Request assms have "st' = st"
      by (auto simp: handle_simps add_def open_append_def home_def cafes_def
               split: if_splits option.splits sum.splits)
    then show ?thesis by simp
  qed
qed

subsection \<open>Runs and the store invariant\<close>

lemma reach_prepend:
  "reach cfg url_ok ok st1 st' \<Longrightarrow> handle cfg url_ok st req = (r, st1) \<Longrightarrow> ok req \<Longrightarrow>
   reach cfg url_ok ok st st'"
  by (induction rule: reach.induct) (auto intro: reach.intros)

lemma run_reach:
  "run cfg url_ok st reqs = (rs, st') \<Longrightarrow> list_all ok reqs \<Longrightarrow> reach cfg url_ok ok st st'"
proof (induction reqs arbitrary: st rs)
  case Nil
  then show ?case by (simp add: reach.reach_init)
next
  case (Cons req reqs)
  obtain r st1 where h: "handle cfg url_ok st req = (r, st1)" by fastforce
  obtain rs1 where t: "run cfg url_ok st1 reqs = (rs1, st')"
    using Cons.prems h by (auto split: prod.splits)
  show ?case
    using Cons.IH [OF t] Cons.prems(2) h by (auto intro: reach_prepend)
qed

lemma bounded_field:
  "bounded_request (Request m p fd c) \<Longrightarrow> field_data fd n = Some v \<Longrightarrow> length v \<le> field_limit"
  by (auto simp: bounded_request_def field_data_def list_all_iff dest!: map_of_SomeD)

lemma row_fields_bounded:
  assumes b: "bounded_request (Request m p fd c)" and v: "validate_on_submit url_ok c fd"
    and r: "new_row fd = Inr row"
  shows "\<forall>f \<in> set row. length (univ_nl f) \<le> field_limit"
proof -
  have bd: "length (the (field_data fd n)) \<le> field_limit" if "nonblank (field_data fd n)" for n
    using bounded_field [OF b] nonblank_the [OF that] by metis
  have nb: "nonblank (field_data fd ''name'')" "nonblank (field_data fd ''cafe_location'')"
           "nonblank (field_data fd ''opening'')" "nonblank (field_data fd ''closing'')"
    using v unfolding form_valid_iff by simp_all
  have enc: "length s \<le> field_limit" if "spec_encode cat n = Some s" for cat n s
    using spec_encode_length [OF that] by (simp add: field_limit_def)
  have "\<forall>f \<in> set row. length f \<le> field_limit"
    using valid_new_row [OF v] r bd [OF nb(1)] bd [OF nb(2)] bd [OF nb(3)] bd [OF nb(4)]
    by (auto dest!: enc intro: order_trans [OF length_removeAll_less_eq])
  then show ?thesis
    using length_univ_nl_le order_trans by blast
qed

lemma store_ok_step:
  assumes "store_ok st" and "bounded_request req" and h: "handle cfg url_ok st req = (r, st')"
  shows "store_ok st'"
  using handle_cases [OF h]
proof
  assume "st' = st"
  with assms show ?thesis by simp
next
  assume "\<exists>fd c row. req = Request POST ''/add'' fd c \<and> validate_on_submit url_ok c fd \<and>
            csv_writable st \<and> new_row fd = Inr row \<and>
            st' = st\<lparr>csv_file := Some (stored st @ csv_writerow row)\<rparr>"
  then obtain fd c row where w: "req = Request POST ''/add'' fd c" "validate_on_submit url_ok c fd"
      "new_row fd = Inr row" "st' = st\<lparr>csv_file := Some (stored st @ csv_writerow row)\<rparr>"
    by blast
  have "csv_clean (stored st)"
    using assms(1) by (auto simp: store_ok_def stored_def csv_clean_Nil split: option.splits)
  moreover have "\<forall>f \<in> set row. length (univ_nl f) \<le> field_limit"
    using row_fields_bounded assms(2) w by blast
  ultimately show ?thesis
    using w(4) by (simp add: store_ok_def csv_clean_append_row)
qed

lemma reach_store_ok:
  "reach cfg url_ok bounded_request st0 st \<Longrightarrow> store_ok st0 \<Longrightarrow> store_ok st"
  by (induction rule: reach.induct) (auto intro: store_ok_step)

lemma store_ok_cafes:
  "store_ok st \<Longrightarrow> csv_file st = None \<or> (\<exists>rows. cafes st = (Inr (RenderCafes rows), st))"
  by (auto simp: store_ok_def cafes_def dest!: clean_read split: option.splits)

lemma post_then_cafes_any:
  assumes ok: "store_ok st" and w: "csv_writable st"
    and k: "secret_key cfg \<noteq> None" "secret_key cfg \<noteq> Some []"
    and v: "validate_on_submit url_ok c fd" and r: "new_row fd = Inr row"
    and b: "\<forall>f \<in> set row. length (univ_nl f) \<le> field_limit"
  shows "\<exists>rows. csv_read (stored st) = Inr rows \<and>
           handle cfg url_ok st (Request POST ''/add'' fd c) =
             (Inr (Redirect ''/cafes''), st\<lparr>csv_file := Some (stored st @ csv_writerow row)\<rparr>) \<and>
           cafes (st\<lparr>csv_file := Some (stored st @ csv_writerow row)\<rparr>) =
             (Inr (RenderCafes (rows @ [map univ_nl row])), st\<lparr>csv_file := Some (stored st @ csv_writerow row)\<rparr>)"
proof -
  have cl: "csv_clean (stored st)"
    using ok by (auto simp: store_ok_def stored_def csv_clean_Nil split: option.splits)
  obtain rows where rows: "csv_read (stored st) = Inr rows"
      "csv_read (stored st @ csv_writerow row) = Inr (rows @ [map univ_nl row])"
    using csv_append_read_rows [OF cl b] by blast
  have "handle cfg url_ok st (Request POST ''/add'' fd c) =
          (Inr (Redirect ''/cafes''), st\<lparr>csv_file := Some (stored st @ csv_writerow row)\<rparr>)"
    using w k v r by (auto simp: handle_simps add_def open_append_def stored_def split: option.splits)
  with rows show ?thesis by (simp add: cafes_def)
qed

lemma store_rows_ok_step:
  assumes ok: "store_rows_ok st" and b: "bounded_request req" and h: "handle cfg url_ok st req = (r, st')"
  shows "store_rows_ok st'"
  using handle_cases [OF h]
proof
  assume "st' = st"
  with ok show ?thesis by simp
next
  assume "\<exists>fd c row. req = Request POST ''/add'' fd c \<and> validate_on_submit url_ok c fd \<and>
            csv_writable st \<and> new_row fd = Inr row \<and>
            st' = st\<lparr>csv_file := Some (stored st @ csv_writerow row)\<rparr>"
  then obtain fd c row where wr: "req = Request POST ''/add'' fd c" "validate_on_submit url_ok c fd"
      "new_row fd = Inr row" "st' = st\<lparr>csv_file := Some (stored st @ csv_writerow row)\<rparr>"
    by blast
  have sok: "store_ok st" using ok by (simp add: store_rows_ok_def)
  have cl: "csv_clean (stored st)"
    using sok by (auto simp: store_ok_def stored_def csv_clean_Nil split: option.splits)
  have bd: "\<forall>f \<in> set row. length (univ_nl f) \<le> field_limit"
    using row_fields_bounded b wr by blast
  obtain rows where rows: "csv_read (stored st) = Inr rows"
      "csv_read (stored st @ csv_writerow row) = Inr (rows @ [map univ_nl row])"
    using csv_append_read_rows [OF cl bd] by blast
  have "list_all (\<lambda>r. length r = 7) rows"
    using ok rows(1) by (auto simp: store_rows_ok_def stored_def csv_read_Nil split: option.splits)
  moreover have "store_ok st'"
    using store_ok_step [OF sok b h] .
  ultimately show ?thesis
    using wr(4) rows(2) new_row_length [OF wr(3)] by (simp add: store_rows_ok_def)
qed

lemma reach_store_rows_ok:
  "reach cfg url_ok bounded_request st0 st \<Longrightarrow> store_rows_ok st0 \<Longrightarrow> store_rows_ok st"
  by (induction rule: reach.induct) (auto intro: store_rows_ok_step)

subsection \<open>The example of spec section 8\<close>

lemma spec_example_bounded: "bounded_request (Request POST ''/add'' spec_example_form c)"
  by (simp add: bounded_request_def spec_example_form_def field_limit_def py_simps)

lemma post_then_cafes:
  assumes f: "csv_file st = Some t" and cl: "csv_clean t" and w: "csv_writable st"
    and k: "secret_key cfg \<noteq> None" "secret_key cfg \<noteq> Some []"
    and v: "validate_on_submit url_ok c fd" and r: "new_row fd = Inr row"
    and b: "\<forall>f \<in> set row. length (univ_nl f) \<le> field_limit"
  shows "\<exists>rows. cafes st = (Inr (RenderCafes rows), st) \<and>
           handle cfg url_ok st (Request POST ''/add'' fd c) =
             (Inr (Redirect ''/cafes''), st\<lparr>csv_file := Some (t @ csv_writerow row)\<rparr>) \<and>
           cafes (st\<lparr>csv_file := Some (t @ csv_writerow row)\<rparr>) =
             (Inr (RenderCafes (rows @ [map univ_nl row])), st\<lparr>csv_file := Some (t @ csv_writerow row)\<rparr>)"
proof -
  obtain rows where rows: "csv_read t = Inr rows" "csv_read (t @ csv_writerow row) = Inr (rows @ [map univ_nl row])"
    using csv_append_read_rows [OF cl b] by blast
  show ?thesis
    using f w k v r rows by (simp add: handle_simps add_def open_append_def cafes_def)
qed

lemma spec_example_run:
  "run \<lparr>secret_key = Some (py ''k'')\<rparr> (\<lambda>_. True) \<lparr>csv_file = Some [], csv_writable = True\<rparr>
     [Request POST ''/add'' spec_example_form True] =
   ([Redirect ''/cafes''], \<lparr>csv_file = Some spec_example_line, csv_writable = True\<rparr>)"
proof -
  have v: "validate_on_submit (\<lambda>_. True) True spec_example_form"
    by (rule spec_example_valid) simp
  show ?thesis
    by (simp add: handle_simps add_def open_append_def v spec_example_new_row spec_example_writerow
                  respond_simps py_simps)
qed

lemma spec_example_reach:
  "reach \<lparr>secret_key = Some (py ''k'')\<rparr> (\<lambda>_. True) bounded_request
     \<lparr>csv_file = Some [], csv_writable = True\<rparr> \<lparr>csv_file = Some spec_example_line, csv_writable = True\<rparr>"
  by (rule run_reach [OF spec_example_run]) (simp add: spec_example_bounded)

subsection \<open>Properties of the application\<close>

text \<open>
  C13 (functional): the scenario of spec section 8.  On a clean store, posting Joe's cafe
  (\<^verbatim>\<open>8AM\<close>, \<^verbatim>\<open>5:30PM\<close>, coffee 3, wifi 0, power 5) appends exactly the line
  \<^verbatim>\<open>Joe's,https://maps.example/x,8AM,5:30PM,\<close> followed by three coffee glyphs, the
  sentinel and five plugs, and redirects to \<^verbatim>\<open>/cafes\<close>; the listing then shows the rows
  it showed before followed by this row.
\<close>

theorem spec_scenario:
  assumes "csv_file st = Some t" and "csv_clean t" and "csv_writable st"
    and "secret_key cfg \<noteq> None" and "secret_key cfg \<noteq> Some []"
    and "url_ok (py ''https://maps.example/x'')"
  shows "\<exists>rows. cafes st = (Inr (RenderCafes rows), st) \<and>
           run cfg url_ok st [Request POST ''/add'' spec_example_form True, Request GET ''/cafes'' [] False] =
             ([Redirect ''/cafes'', RenderCafes (rows @ [spec_example_row])],
              st\<lparr>csv_file := Some (t @ spec_example_line)\<rparr>)"
proof -
  obtain rows where rows: "cafes st = (Inr (RenderCafes rows), st)"
    "handle cfg url_ok st (Request POST ''/add'' spec_example_form True) =
       (Inr (Redirect ''/cafes''), st\<lparr>csv_file := Some (t @ spec_example_line)\<rparr>)"
    "cafes (st\<lparr>csv_file := Some (t @ spec_example_line)\<rparr>) =
       (Inr (RenderCafes (rows @ [spec_example_row])), st\<lparr>csv_file := Some (t @ spec_example_line)\<rparr>)"
    using post_then_cafes [OF assms(1-5) spec_example_valid [of url_ok, OF assms(6)] spec_example_new_row
                              spec_example_fields(1)]
    by (auto simp: spec_example_writerow spec_example_fields(2))
  then show ?thesis
    by (simp add: handle_simps respond_simps)
qed

theorem spec_scenario_witness:
  "csv_file \<lparr>csv_file = Some [], csv_writable = True\<rparr> = Some [] \<and> csv_clean [] \<and>
   csv_writable \<lparr>csv_file = Some [], csv_writable = True\<rparr> \<and>
   secret_key \<lparr>secret_key = Some (py ''k'')\<rparr> \<noteq> None \<and> secret_key \<lparr>secret_key = Some (py ''k'')\<rparr> \<noteq> Some [] \<and>
   (\<lambda>_. True) (py ''https://maps.example/x'') \<and>
   (\<exists>rows. cafes \<lparr>csv_file = Some [], csv_writable = True\<rparr> =
        (Inr (RenderCafes rows), \<lparr>csv_file = Some [], csv_writable = True\<rparr>) \<and>
      run \<lparr>secret_key = Some (py ''k'')\<rparr> (\<lambda>_. True) \<lparr>csv_file = Some [], csv_writable = True\<rparr>
        [Request POST ''/add'' spec_example_form True, Request GET ''/cafes'' [] False] =
        ([Redirect ''/cafes'', RenderCafes (rows @ [spec_example_row])],
         \<lparr>csv_file = Some ([] @ spec_example_line), csv_writable = True\<rparr>))"
  using spec_scenario [of "\<lparr>csv_file = Some [], csv_writable = True\<rparr>" "[]" "\<lparr>secret_key = Some (py ''k'')\<rparr>"
                          "\<lambda>_. True"]
  by (simp add: csv_clean_Nil py_simps)

text \<open>
  C14 (refinement): a valid POST to \<^verbatim>\<open>/add\<close> on a clean writable store redirects, and the
  next listing is the previous one followed by the spec's record (section 4.3): name,
  location, both times with spaces removed, and the three ratings encoded by the spec's
  \<open>encode\<close> from the submitted scores, each field read back with universal newlines.
\<close>

theorem add_then_list:
  assumes "csv_file st = Some t" and "csv_clean t" and "csv_writable st"
    and "secret_key cfg \<noteq> None" and "secret_key cfg \<noteq> Some []"
    and "validate_on_submit url_ok c fd" and "bounded_request (Request POST ''/add'' fd c)"
  shows "\<exists>rows st' co wo so.
           cafes st = (Inr (RenderCafes rows), st) \<and>
           handle cfg url_ok st (Request POST ''/add'' fd c) = (Inr (Redirect ''/cafes''), st') \<and>
           cafes st' = (Inr (RenderCafes (rows @ [map univ_nl
              [the (field_data fd ''name''), the (field_data fd ''cafe_location''),
               removeAll SP (the (field_data fd ''opening'')), removeAll SP (the (field_data fd ''closing'')),
               co, wo, so]])), st') \<and>
           (\<exists>v. field_data fd ''coffee_rating'' = Some (py_str_of_int v) \<and> spec_encode Coffee v = Some co) \<and>
           (\<exists>v. field_data fd ''wifi_rating'' = Some (py_str_of_int v) \<and> spec_encode Wifi v = Some wo) \<and>
           (\<exists>v. field_data fd ''power_socket_rating'' = Some (py_str_of_int v) \<and> spec_encode Power v = Some so)"
proof -
  obtain co wo so where r: "new_row fd =
           Inr [the (field_data fd ''name''), the (field_data fd ''cafe_location''),
                removeAll SP (the (field_data fd ''opening'')),
                removeAll SP (the (field_data fd ''closing'')), co, wo, so]" and
    e: "(\<exists>v. field_data fd ''coffee_rating'' = Some (py_str_of_int v) \<and> spec_encode Coffee v = Some co)"
       "(\<exists>v. field_data fd ''wifi_rating'' = Some (py_str_of_int v) \<and> spec_encode Wifi v = Some wo)"
       "(\<exists>v. field_data fd ''power_socket_rating'' = Some (py_str_of_int v) \<and> spec_encode Power v = Some so)"
    using valid_new_row [OF assms(6)] by blast
  have b: "\<forall>f \<in> set [the (field_data fd ''name''), the (field_data fd ''cafe_location''),
                removeAll SP (the (field_data fd ''opening'')),
                removeAll SP (the (field_data fd ''closing'')), co, wo, so]. length (univ_nl f) \<le> field_limit"
    by (rule row_fields_bounded [OF assms(7,6) r])
  show ?thesis
    using post_then_cafes [OF assms(1-6) r b] e by blast
qed

theorem add_then_list_witness:
  "csv_file \<lparr>csv_file = Some [], csv_writable = True\<rparr> = Some [] \<and> csv_clean [] \<and>
   csv_writable \<lparr>csv_file = Some [], csv_writable = True\<rparr> \<and>
   secret_key \<lparr>secret_key = Some (py ''k'')\<rparr> \<noteq> None \<and> secret_key \<lparr>secret_key = Some (py ''k'')\<rparr> \<noteq> Some [] \<and>
   validate_on_submit (\<lambda>_. True) True spec_example_form \<and>
   bounded_request (Request POST ''/add'' spec_example_form True) \<and>
   (\<exists>rows st'. handle \<lparr>secret_key = Some (py ''k'')\<rparr> (\<lambda>_. True) \<lparr>csv_file = Some [], csv_writable = True\<rparr>
       (Request POST ''/add'' spec_example_form True) = (Inr (Redirect ''/cafes''), st') \<and>
     cafes st' = (Inr (RenderCafes (rows @ [spec_example_row])), st'))"
proof -
  have v: "validate_on_submit (\<lambda>_. True) True spec_example_form"
    by (rule spec_example_valid) simp
  have fd: "field_data spec_example_form ''name'' = Some (py ''Joe's'')"
    "field_data spec_example_form ''cafe_location'' = Some (py ''https://maps.example/x'')"
    "field_data spec_example_form ''opening'' = Some (py ''8AM'')"
    "field_data spec_example_form ''closing'' = Some (py ''5:30PM'')"
    "field_data spec_example_form ''coffee_rating'' = Some [51]"
    "field_data spec_example_form ''wifi_rating'' = Some [48]"
    "field_data spec_example_form ''power_socket_rating'' = Some [53]"
    by (simp_all add: field_data_def spec_example_form_def py_simps)
  have digits: "[51] = py_str_of_int 3" "[48] = py_str_of_int 0" "[53] = py_str_of_int 5"
    by (simp_all add: py_str_of_int_def nat_digits.simps)
  have rm: "removeAll SP (py ''8AM'') = py ''8AM''" "removeAll SP (py ''5:30PM'') = py ''5:30PM''"
    by (simp_all add: py_simps)
  show ?thesis
    using add_then_list [OF _ csv_clean_Nil _ _ _ v spec_example_bounded,
        of "\<lparr>csv_file = Some [], csv_writable = True\<rparr>" "\<lparr>secret_key = Some (py ''k'')\<rparr>"]
    unfolding fd digits rm
    by (auto simp: v spec_example_bounded csv_clean_Nil py_str_of_int_eq_iff spec_encode_def
                   sentinel_def spec_example_fields(2) spec_example_row_def py_simps)
qed

text \<open>
  C15 (invariant): the store is append-only: along any sequence of requests, the file's
  earlier text is always a prefix of its later text (records are never updated or deleted).
\<close>

theorem store_append_only:
  "reach cfg url_ok ok st0 st \<Longrightarrow> csv_file st0 = Some t \<Longrightarrow> \<exists>u. csv_file st = Some (t @ u)"
proof (induction rule: reach.induct)
  case reach_init
  then show ?case by simp
next
  case (reach_step st req r st')
  then obtain u where u: "csv_file st = Some (t @ u)" by blast
  from handle_cases [OF reach_step.hyps(3)] show ?case
    using u by (auto simp: stored_def)
qed

theorem store_append_only_witness:
  "reach \<lparr>secret_key = Some (py ''k'')\<rparr> (\<lambda>_. True) bounded_request
     \<lparr>csv_file = Some [], csv_writable = True\<rparr> \<lparr>csv_file = Some spec_example_line, csv_writable = True\<rparr> \<and>
   csv_file \<lparr>csv_file = Some [], csv_writable = True\<rparr> = Some [] \<and>
   (\<exists>u. csv_file \<lparr>csv_file = Some spec_example_line, csv_writable = True\<rparr> = Some ([] @ u))"
  using store_append_only [OF spec_example_reach] spec_example_reach by simp

text \<open>
  C16 (invariant): starting from an absent or clean store, any sequence of requests whose
  posted values fit in a CSV field keeps the store clean, so the listing never fails on a
  file it has itself written.
\<close>

theorem store_stays_readable:
  assumes "reach cfg url_ok bounded_request st0 st" and "store_ok st0"
  shows "store_ok st \<and> (csv_file st = None \<or> (\<exists>rows. cafes st = (Inr (RenderCafes rows), st)))"
  using reach_store_ok [OF assms] store_ok_cafes by blast

theorem store_stays_readable_witness:
  "reach \<lparr>secret_key = Some (py ''k'')\<rparr> (\<lambda>_. True) bounded_request
     \<lparr>csv_file = Some [], csv_writable = True\<rparr> \<lparr>csv_file = Some spec_example_line, csv_writable = True\<rparr> \<and>
   store_ok \<lparr>csv_file = Some [], csv_writable = True\<rparr> \<and>
   store_ok \<lparr>csv_file = Some spec_example_line, csv_writable = True\<rparr> \<and>
   (\<exists>rows. cafes \<lparr>csv_file = Some spec_example_line, csv_writable = True\<rparr> =
      (Inr (RenderCafes rows), \<lparr>csv_file = Some spec_example_line, csv_writable = True\<rparr>))"
proof -
  have s0: "store_ok \<lparr>csv_file = Some [], csv_writable = True\<rparr>"
    by (simp add: store_ok_def csv_clean_Nil)
  show ?thesis
    using store_stays_readable [OF spec_example_reach s0] spec_example_reach s0 by simp
qed

text \<open>
  C17 (functional): a POST to \<^verbatim>\<open>/add\<close> whose form does not validate re-renders the form
  with the field errors and writes nothing (spec section 4.4, no partial write).
\<close>

theorem invalid_post_renders_form:
  assumes "secret_key cfg \<noteq> None" and "secret_key cfg \<noteq> Some []"
    and "\<not> validate_on_submit url_ok c fd"
  shows "handle cfg url_ok st (Request POST ''/add'' fd c) = (Inr (RenderAdd (form_errors url_ok fd)), st)"
  using assms by (simp add: handle_simps add_def)

theorem invalid_post_renders_form_witness:
  "secret_key \<lparr>secret_key = Some (py ''k'')\<rparr> \<noteq> None \<and> secret_key \<lparr>secret_key = Some (py ''k'')\<rparr> \<noteq> Some [] \<and>
   \<not> validate_on_submit (\<lambda>_. True) True [] \<and>
   handle \<lparr>secret_key = Some (py ''k'')\<rparr> (\<lambda>_. True) \<lparr>csv_file = Some [], csv_writable = True\<rparr>
     (Request POST ''/add'' [] True) =
   (Inr (RenderAdd (form_errors (\<lambda>_. True) [])), \<lparr>csv_file = Some [], csv_writable = True\<rparr>)"
  using invalid_post_renders_form [OF _ _ empty_form_invalid, of "\<lparr>secret_key = Some (py ''k'')\<rparr>"]
        empty_form_invalid
  by (simp add: py_simps)

text \<open>
  C18 (safety): only a POST to \<^verbatim>\<open>/add\<close> can change the store; after any other request
  the listing is the same as before it (reads are idempotent, spec section 8).
\<close>

theorem only_post_add_writes:
  assumes "\<not> (p = ''/add'' \<and> m = POST)"
  shows "snd (handle cfg url_ok st (Request m p fd c)) = st \<and>
         cafes (snd (handle cfg url_ok st (Request m p fd c))) = cafes st"
proof -
  obtain r st' where h: "handle cfg url_ok st (Request m p fd c) = (r, st')" by fastforce
  have "st' = st"
    using handle_cases [OF h] assms by auto
  with h show ?thesis by simp
qed

theorem only_post_add_writes_witness:
  "\<not> (''/cafes'' = ''/add'' \<and> GET = POST) \<and>
   snd (handle \<lparr>secret_key = None\<rparr> (\<lambda>_. True) \<lparr>csv_file = Some [], csv_writable = True\<rparr>
          (Request GET ''/cafes'' [] False)) = \<lparr>csv_file = Some [], csv_writable = True\<rparr>"
  using only_post_add_writes [of "''/cafes''" GET "\<lparr>secret_key = None\<rparr>" "\<lambda>_. True"
                                  "\<lparr>csv_file = Some [], csv_writable = True\<rparr>" "[]" False]
  by simp

text \<open>
  C19 (error): with no \<^verbatim>\<open>SECRET_KEY\<close> in the environment (or an empty one), every
  GET, HEAD or POST to \<^verbatim>\<open>/add\<close> raises \<^verbatim>\<open>RuntimeError\<close> and writes nothing, while
  \<^verbatim>\<open>/\<close> and \<^verbatim>\<open>/cafes\<close> behave as usual: the failure happens per request, not at
  startup as spec section 7 requires.
\<close>

theorem missing_secret_breaks_add_only:
  assumes "secret_key cfg = None \<or> secret_key cfg = Some []" and "m = GET \<or> m = HEAD \<or> m = POST"
  shows "(\<exists>msg. handle cfg url_ok st (Request m ''/add'' fd c) = (Inl (RuntimeError msg), st)) \<and>
         handle cfg url_ok st (Request GET ''/'' fd c) = (Inr RenderIndex, st) \<and>
         handle cfg url_ok st (Request GET ''/cafes'' fd c) = cafes st"
  using assms by (auto simp: handle_simps add_def home_def)

theorem missing_secret_breaks_add_only_witness:
  "(secret_key (config_of_env Map.empty) = None \<or> secret_key (config_of_env Map.empty) = Some []) \<and>
   (GET = GET \<or> GET = HEAD \<or> GET = POST) \<and>
   (\<exists>msg. handle (config_of_env Map.empty) (\<lambda>_. True) \<lparr>csv_file = Some [], csv_writable = True\<rparr>
            (Request GET ''/add'' [] False) =
          (Inl (RuntimeError msg), \<lparr>csv_file = Some [], csv_writable = True\<rparr>))"
  using missing_secret_breaks_add_only [of "config_of_env Map.empty" GET "\<lambda>_. True"
          "\<lparr>csv_file = Some [], csv_writable = True\<rparr>" "[]" False]
  by (simp add: config_of_env_def)

text \<open>
  C20 (error): a valid submission to a store the process may not write raises
  \<^verbatim>\<open>PermissionError\<close> (a 500 response) and leaves the store unchanged.
\<close>

theorem unwritable_store_raises:
  assumes "secret_key cfg \<noteq> None" and "secret_key cfg \<noteq> Some []"
    and "validate_on_submit url_ok c fd" and "\<not> csv_writable st"
  shows "handle cfg url_ok st (Request POST ''/add'' fd c) = (Inl PermissionError, st)"
  using assms by (simp add: handle_simps add_def open_append_def)

theorem unwritable_store_raises_witness:
  "secret_key \<lparr>secret_key = Some (py ''k'')\<rparr> \<noteq> None \<and> secret_key \<lparr>secret_key = Some (py ''k'')\<rparr> \<noteq> Some [] \<and>
   validate_on_submit (\<lambda>_. True) True spec_example_form \<and>
   \<not> csv_writable \<lparr>csv_file = Some [], csv_writable = False\<rparr> \<and>
   handle \<lparr>secret_key = Some (py ''k'')\<rparr> (\<lambda>_. True) \<lparr>csv_file = Some [], csv_writable = False\<rparr>
     (Request POST ''/add'' spec_example_form True) = (Inl PermissionError, \<lparr>csv_file = Some [], csv_writable = False\<rparr>)"
proof -
  have v: "validate_on_submit (\<lambda>_. True) True spec_example_form"
    by (rule spec_example_valid) simp
  show ?thesis
    using unwritable_store_raises [OF _ _ v, of "\<lparr>secret_key = Some (py ''k'')\<rparr>"
            "\<lparr>csv_file = Some [], csv_writable = False\<rparr>"] v
    by (simp add: py_simps)
qed

text \<open>
  C21 (error): before the first submission the file does not exist and the listing raises
  \<^verbatim>\<open>FileNotFoundError\<close>; the first valid submission creates it holding just its line.
\<close>

theorem first_add_creates_store:
  assumes "csv_file st = None" and "csv_writable st"
    and "secret_key cfg \<noteq> None" and "secret_key cfg \<noteq> Some []"
    and "validate_on_submit url_ok c fd" and "new_row fd = Inr row"
  shows "cafes st = (Inl FileNotFoundError, st) \<and>
         handle cfg url_ok st (Request POST ''/add'' fd c) =
           (Inr (Redirect ''/cafes''), st\<lparr>csv_file := Some (csv_writerow row)\<rparr>)"
  using assms by (simp add: cafes_def handle_simps add_def open_append_def)

theorem first_add_creates_store_witness:
  "csv_file \<lparr>csv_file = None, csv_writable = True\<rparr> = None \<and> csv_writable \<lparr>csv_file = None, csv_writable = True\<rparr> \<and>
   secret_key \<lparr>secret_key = Some (py ''k'')\<rparr> \<noteq> None \<and> secret_key \<lparr>secret_key = Some (py ''k'')\<rparr> \<noteq> Some [] \<and>
   validate_on_submit (\<lambda>_. True) True spec_example_form \<and>
   new_row spec_example_form = Inr spec_example_row \<and>
   cafes \<lparr>csv_file = None, csv_writable = True\<rparr> = (Inl FileNotFoundError, \<lparr>csv_file = None, csv_writable = True\<rparr>) \<and>
   handle \<lparr>secret_key = Some (py ''k'')\<rparr> (\<lambda>_. True) \<lparr>csv_file = None, csv_writable = True\<rparr>
     (Request POST ''/add'' spec_example_form True) =
   (Inr (Redirect ''/cafes''), \<lparr>csv_file = Some spec_example_line, csv_writable = True\<rparr>)"
proof -
  have v: "validate_on_submit (\<lambda>_. True) True spec_example_form"
    by (rule spec_example_valid) simp
  show ?thesis
    using first_add_creates_store [OF _ _ _ _ v spec_example_new_row,
            of "\<lparr>csv_file = None, csv_writable = True\<rparr>" "\<lparr>secret_key = Some (py ''k'')\<rparr>"]
          v spec_example_new_row
    by (simp add: spec_example_writerow py_simps)
qed

text \<open>
  C25 (type): starting from a store whose rows all have seven columns, any sequence of
  requests with field-sized values leaves a store whose listing (when the file exists)
  succeeds and has seven columns in every row, as \<^verbatim>\<open>cafes.html\<close> expects.
\<close>

theorem listed_rows_have_seven_fields:
  assumes "reach cfg url_ok bounded_request st0 st" and "store_rows_ok st0"
  shows "csv_file st = None \<or>
         (\<exists>rows. cafes st = (Inr (RenderCafes rows), st) \<and> list_all (\<lambda>r. length r = 7) rows)"
  using reach_store_rows_ok [OF assms]
  by (auto simp: store_rows_ok_def cafes_def split: option.splits sum.splits)

theorem listed_rows_have_seven_fields_witness:
  "reach \<lparr>secret_key = Some (py ''k'')\<rparr> (\<lambda>_. True) bounded_request
     \<lparr>csv_file = Some [], csv_writable = True\<rparr> \<lparr>csv_file = Some spec_example_line, csv_writable = True\<rparr> \<and>
   store_rows_ok \<lparr>csv_file = Some [], csv_writable = True\<rparr> \<and>
   (\<exists>rows. cafes \<lparr>csv_file = Some spec_example_line, csv_writable = True\<rparr> =
      (Inr (RenderCafes rows), \<lparr>csv_file = Some spec_example_line, csv_writable = True\<rparr>) \<and>
      list_all (\<lambda>r. length r = 7) rows)"
proof -
  have s0: "store_rows_ok \<lparr>csv_file = Some [], csv_writable = True\<rparr>"
    by (simp add: store_rows_ok_def store_ok_def csv_clean_Nil csv_read_Nil)
  show ?thesis
    using listed_rows_have_seven_fields [OF spec_example_reach s0] spec_example_reach s0 by simp
qed

text \<open>
  C27 (liveness): the application never gets stuck: from every state that requests with
  field-sized values reach from an absent or clean store, as long as the file is writable
  and a key is set, a valid submission followed by a listing redirects and then lists the
  new row last.
\<close>

theorem submission_always_listed:
  assumes "reach cfg url_ok bounded_request st0 st" and "store_ok st0" and "csv_writable st"
    and "secret_key cfg \<noteq> None" and "secret_key cfg \<noteq> Some []"
    and "validate_on_submit url_ok c fd" and "bounded_request (Request POST ''/add'' fd c)"
  shows "\<exists>rows row st'. new_row fd = Inr row \<and>
           run cfg url_ok st [Request POST ''/add'' fd c, Request GET ''/cafes'' [] False] =
             ([Redirect ''/cafes'', RenderCafes (rows @ [map univ_nl row])], st')"
proof -
  have ok: "store_ok st" by (rule reach_store_ok [OF assms(1,2)])
  obtain row where r: "new_row fd = Inr row"
    using valid_new_row [OF assms(6)] by blast
  have b: "\<forall>f \<in> set row. length (univ_nl f) \<le> field_limit"
    by (rule row_fields_bounded [OF assms(7,6) r])
  obtain rows where h:
      "handle cfg url_ok st (Request POST ''/add'' fd c) =
         (Inr (Redirect ''/cafes''), st\<lparr>csv_file := Some (stored st @ csv_writerow row)\<rparr>)"
      "cafes (st\<lparr>csv_file := Some (stored st @ csv_writerow row)\<rparr>) =
         (Inr (RenderCafes (rows @ [map univ_nl row])), st\<lparr>csv_file := Some (stored st @ csv_writerow row)\<rparr>)"
    using post_then_cafes_any [OF ok assms(3-6) r b] by blast
  then show ?thesis
    using r by (simp add: handle_simps respond_simps)
qed

theorem submission_always_listed_witness:
  "reach \<lparr>secret_key = Some (py ''k'')\<rparr> (\<lambda>_. True) bounded_request
     \<lparr>csv_file = Some [], csv_writable = True\<rparr> \<lparr>csv_file = Some spec_example_line, csv_writable = True\<rparr> \<and>
   store_ok \<lparr>csv_file = Some [], csv_writable = True\<rparr> \<and>
   csv_writable \<lparr>csv_file = Some spec_example_line, csv_writable = True\<rparr> \<and>
   secret_key \<lparr>secret_key = Some (py ''k'')\<rparr> \<noteq> None \<and> secret_key \<lparr>secret_key = Some (py ''k'')\<rparr> \<noteq> Some [] \<and>
   validate_on_submit (\<lambda>_. True) True spec_example_form \<and>
   bounded_request (Request POST ''/add'' spec_example_form True) \<and>
   (\<exists>rows row st'. new_row spec_example_form = Inr row \<and>
      run \<lparr>secret_key = Some (py ''k'')\<rparr> (\<lambda>_. True) \<lparr>csv_file = Some spec_example_line, csv_writable = True\<rparr>
        [Request POST ''/add'' spec_example_form True, Request GET ''/cafes'' [] False] =
        ([Redirect ''/cafes'', RenderCafes (rows @ [map univ_nl row])], st'))"
proof -
  have v: "validate_on_submit (\<lambda>_. True) True spec_example_form"
    by (rule spec_example_valid) simp
  have s0: "store_ok \<lparr>csv_file = Some [], csv_writable = True\<rparr>"
    by (simp add: store_ok_def csv_clean_Nil)
  show ?thesis
    using submission_always_listed [OF spec_example_reach s0 _ _ _ v spec_example_bounded]
          spec_example_reach s0 v spec_example_bounded
    by (simp add: py_simps)
qed

text \<open>
  C28 (functional): submissions are listed in the order they were made, and nothing
  merges them: two valid submissions followed by a listing show the earlier rows, then the
  first, then the second, even when both are the same cafe (spec section 3 permits
  duplicates).
\<close>

theorem submissions_listed_in_order:
  assumes ok: "store_ok st" and w: "csv_writable st"
    and k: "secret_key cfg \<noteq> None" "secret_key cfg \<noteq> Some []"
    and v1: "validate_on_submit url_ok c1 fd1" and b1: "bounded_request (Request POST ''/add'' fd1 c1)"
    and v2: "validate_on_submit url_ok c2 fd2" and b2: "bounded_request (Request POST ''/add'' fd2 c2)"
  shows "\<exists>rows r1 r2 st'. new_row fd1 = Inr r1 \<and> new_row fd2 = Inr r2 \<and> csv_read (stored st) = Inr rows \<and>
           run cfg url_ok st [Request POST ''/add'' fd1 c1, Request POST ''/add'' fd2 c2,
                              Request GET ''/cafes'' [] False] =
             ([Redirect ''/cafes'', Redirect ''/cafes'',
               RenderCafes (rows @ [map univ_nl r1, map univ_nl r2])], st')"
proof -
  obtain r1 where r1: "new_row fd1 = Inr r1" using valid_new_row [OF v1] by blast
  obtain r2 where r2: "new_row fd2 = Inr r2" using valid_new_row [OF v2] by blast
  define st1 where "st1 = st\<lparr>csv_file := Some (stored st @ csv_writerow r1)\<rparr>"
  obtain rows where A: "csv_read (stored st) = Inr rows"
      "handle cfg url_ok st (Request POST ''/add'' fd1 c1) = (Inr (Redirect ''/cafes''), st1)"
      "cafes st1 = (Inr (RenderCafes (rows @ [map univ_nl r1])), st1)"
    using post_then_cafes_any [OF ok w k v1 r1 row_fields_bounded [OF b1 v1 r1]] unfolding st1_def by blast
  have ok1: "store_ok st1" by (rule store_ok_step [OF ok b1 A(2)])
  have w1: "csv_writable st1" using w by (simp add: st1_def)
  obtain rows' where B: "csv_read (stored st1) = Inr rows'"
      "handle cfg url_ok st1 (Request POST ''/add'' fd2 c2) =
         (Inr (Redirect ''/cafes''), st1\<lparr>csv_file := Some (stored st1 @ csv_writerow r2)\<rparr>)"
      "cafes (st1\<lparr>csv_file := Some (stored st1 @ csv_writerow r2)\<rparr>) =
         (Inr (RenderCafes (rows' @ [map univ_nl r2])), st1\<lparr>csv_file := Some (stored st1 @ csv_writerow r2)\<rparr>)"
    using post_then_cafes_any [OF ok1 w1 k v2 r2 row_fields_bounded [OF b2 v2 r2]] by blast
  have "rows' = rows @ [map univ_nl r1]"
    using A(3) B(1) by (simp add: cafes_def st1_def stored_def)
  with A B r1 r2 show ?thesis
    by (simp add: handle_simps respond_simps)
qed

theorem submissions_listed_in_order_witness:
  "store_ok \<lparr>csv_file = Some [], csv_writable = True\<rparr> \<and> csv_writable \<lparr>csv_file = Some [], csv_writable = True\<rparr> \<and>
   secret_key \<lparr>secret_key = Some (py ''k'')\<rparr> \<noteq> None \<and> secret_key \<lparr>secret_key = Some (py ''k'')\<rparr> \<noteq> Some [] \<and>
   validate_on_submit (\<lambda>_. True) True spec_example_form \<and>
   bounded_request (Request POST ''/add'' spec_example_form True) \<and>
   (\<exists>rows st'. csv_read [] = Inr rows \<and>
      run \<lparr>secret_key = Some (py ''k'')\<rparr> (\<lambda>_. True) \<lparr>csv_file = Some [], csv_writable = True\<rparr>
        [Request POST ''/add'' spec_example_form True, Request POST ''/add'' spec_example_form True,
         Request GET ''/cafes'' [] False] =
        ([Redirect ''/cafes'', Redirect ''/cafes'', RenderCafes (rows @ [spec_example_row, spec_example_row])], st'))"
proof -
  have v: "validate_on_submit (\<lambda>_. True) True spec_example_form"
    by (rule spec_example_valid) simp
  have s0: "store_ok \<lparr>csv_file = Some [], csv_writable = True\<rparr>"
    by (simp add: store_ok_def csv_clean_Nil)
  show ?thesis
    using submissions_listed_in_order [OF s0 _ _ _ v spec_example_bounded v spec_example_bounded]
          s0 v spec_example_bounded
    by (simp add: spec_example_new_row spec_example_fields(2) stored_def py_simps)
qed

end
