(* ===== verification/Spec2Isabelle.thy ===== *)
theory Spec2Isabelle
  imports Rating TimeFormat Csv CsvReader Utf8 Form App Server
begin

text \<open>
  Verification development of CristinaAlina/coffee-and-wifi, a Flask application in one
  file, \<^verbatim>\<open>src/main.py\<close>, that lists cafes read from \<^verbatim>\<open>cafe-data.csv\<close> and appends new
  ones submitted through a validated form.

  \<^bold>\<open>The program.\<close>  Three views share one resource, the CSV file.  \<^verbatim>\<open>home()\<close>
  renders a static page.  \<^verbatim>\<open>cafes()\<close> opens the file in text mode, iterates a
  \<^verbatim>\<open>csv.reader\<close> over it and renders the rows.  \<^verbatim>\<open>add()\<close> builds \<^verbatim>\<open>CafeForm\<close>
  (which needs the \<^verbatim>\<open>SECRET_KEY\<close> of the environment for its CSRF token), validates a
  POST with WTForms (required fields, a URL test, a time-of-day regular expression, three
  rating choices), opens the file for appending, turns each submitted score into a glyph
  string through the rating lists, removes spaces from the times, writes the row with
  \<^verbatim>\<open>csv.writer\<close> and redirects to the listing.

  \<^bold>\<open>Theories and what they model.\<close>
  \<^item> \<open>Prelude\<close>: Python strings as lists of code points (\<open>pystr\<close>), the built-ins the
    program calls (\<^verbatim>\<open>str * int\<close>, \<^verbatim>\<open>strip\<close>, \<^verbatim>\<open>replace\<close>, \<^verbatim>\<open>int()\<close>,
    \<^verbatim>\<open>str()\<close>, \<^verbatim>\<open>range\<close>, \<^verbatim>\<open>list.insert\<close>, \<^verbatim>\<open>dict(pairs).get\<close>), the exceptions
    (\<open>py_error\<close>), and the list and string lemmas the components share.
  \<^item> \<open>Rating\<close>: lines 26--42 (\<^verbatim>\<open>emojis\<close>, \<^verbatim>\<open>coffee_rating_list\<close>,
    \<^verbatim>\<open>wifi_rating_list\<close>, \<^verbatim>\<open>power_rating_list\<close>) and the lookups of lines 87--89
    (\<open>rating_option\<close>), with the spec's encoder \<open>spec_encode\<close> (spec 4.1) and a
    glyph-counting decoder \<open>rating_of_display\<close>.
  \<^item> \<open>Regex\<close> and \<open>TimeFormat\<close>: the fragment of Python's \<^verbatim>\<open>re\<close> the program uses, as a
    backtracking matcher (\<open>rx_match\<close>) with its language semantics, and the pattern of lines
    52 and 58 (\<open>time_regex\<close>), with the spec's grammar (\<open>spec_time_regex\<close>, spec 4.2).
  \<^item> \<open>Csv\<close>: CPython's \<^verbatim>\<open>_csv\<close> writer for the default dialect (\<open>csv_writerow\<close>:
    minimal quoting, doubled quotes, \<^verbatim>\<open>\r\n\<close>), text-mode universal newlines
    (\<open>univ_nl\<close>) and line splitting, and the reader's state machine (\<open>csv_step\<close>, the
    states of \<^verbatim>\<open>parse_process_char\<close>, with the field size limit) folded over the whole
    file (\<open>csv_read\<close>).
  \<^item> \<open>CsvReader\<close>: the loop of lines 76--78 as the program runs it: \<^verbatim>\<open>Reader_iternext\<close>
    (\<open>reader_next\<close>, feeding whole lines until a record is complete) called by the
    \<^verbatim>\<open>for\<close> loop (\<open>cafes_loop\<close>, a \<^theory_text>\<open>partial_function (option)\<close>).
  \<^item> \<open>Utf8\<close>: the \<^verbatim>\<open>encoding="utf-8"\<close> of both \<^verbatim>\<open>open\<close> calls (lines 74 and
    86): CPython's strict UTF-8 encoder (\<open>utf8_encode\<close>, refusing surrogates) and decoder
    (\<open>utf8_decode\<close>, refusing ill-formed bytes) over bytes as \<open>8 word\<close>s, and the store as
    bytes (\<open>read_store\<close>, \<open>append_store\<close>).
  \<^item> \<open>Form\<close>: \<^verbatim>\<open>CafeForm\<close> (lines 45--63) and WTForms validation: \<open>pre_validate\<close>,
    the validator chain (\<open>run_chain\<close>, \<open>run_validator\<close>), \<open>form_errors\<close>,
    \<open>validate_on_submit\<close>.
  \<^item> \<open>App\<close>: configuration (lines 22--23), the state (whether \<^verbatim>\<open>cafe-data.csv\<close>
    exists, its text, whether it is writable) and the view functions \<open>home\<close>, \<open>cafes\<close>,
    \<open>add\<close> (lines 67--100), each returning an exception or a response and the new state;
    the row \<open>add\<close> builds (\<open>new_row\<close>, \<open>rating_cell\<close>).
  \<^item> \<open>Server\<close>: Flask's URL map with the methods Werkzeug and Flask add (HEAD where GET
    is allowed, automatic OPTIONS; \<open>allowed_methods\<close>, \<open>view\<close>, \<open>handle\<close>, with 404
    and 405), how an exception reaches the client under \<^verbatim>\<open>app.run(debug=True)\<close> or a WSGI
    server (\<open>serve\<close>, lines 103--104), runs of requests (\<open>run\<close>) and the states a kind
    of request can reach (\<open>reach\<close>, an inductive relation).

  \<^bold>\<open>What is proved.\<close>
  \<^item> Encoder: the lists implement \<open>spec_encode\<close>, with no coffee entry for 0, unlike
    what the comment at line 37 says (C1), and stored displays decode back (C2).
  \<^item> Time check: the pattern's exact language (C3), inclusion of the spec's grammar (C4),
    and stored times still pass the pattern with no spaces (C5).
  \<^item> Store format: the append-then-read round trip (C6), the clean-store invariant (C7),
    the merge of a row into an unterminated last line (C8), the field-limit failure (C9),
    and blank lines read as empty records (C24).
  \<^item> Reader loop: it terminates on every file (C22) and computes \<open>csv_read\<close> (C23).
  \<^item> Form: the exact validity condition (C10), rating lookups of a valid form succeed
    (C11), and the messages of the time fields on every submission (C12).
  \<^item> Application: the scenario of spec 8 (C13), add-then-list against the spec's record
    (C14), append-only (C15), the store stays readable (C16), its rows keep seven columns
    (C25), no partial write on an invalid form (C17), only POST \<^verbatim>\<open>/add\<close> writes (C18),
    the missing-key failure (C19), permission and missing-file errors (C20, C21), bounds of
    stored cells (C26), that a submission can always be listed (C27), and that
    submissions are listed in order, duplicates kept (C28).
  \<^item> End to end: the last listed row decodes back to the submitted scores and text (C29,
    below).
  \<^item> Encoding: the byte-level store refines the code-point model, and a byte the codec
    rejects breaks the listing (C30).
  Routing (HEAD, OPTIONS, 404 and 405) and serving are part of \<open>handle\<close> and
  \<open>respond\<close>, which every run above goes through; they are the framework's behaviour and
  carry no claims of their own.

  \<^bold>\<open>Bounds.\<close>  The reader's field limit is CPython's default, 131072 characters
  (\<open>field_limit\<close>); the invariants over runs hold for requests whose posted values fit in
  it (\<open>bounded_request\<close>), which C9 shows is needed.  No fuel is used: the reading loop
  is a partial function whose termination is proved (C22).  On disk a stored code point
  takes one to four bytes (\<open>length_encoded\<close>), so the file grows by at most four bytes
  per character written.

  \<^bold>\<open>Not modelled.\<close>  The Jinja templates and Bootstrap rendering (no effect on the
  state; responses are kept as the data passed to \<^verbatim>\<open>render_template\<close>); the internals
  of WTForms' \<^verbatim>\<open>URL()\<close> check (a parameter \<open>url_ok\<close>) and of CSRF token checking (a
  boolean per request); the order in which a decoding error and a reader error are met in
  one file, which depends on the chunk size of the text layer (the byte-level read
  \<open>read_store\<close> reports decoding first); concurrent requests (each request is one
  atomic step; the development server is threaded, but the spec leaves concurrent appends
  to the operating system); \<^verbatim>\<open>Bootstrap5(app)\<close>, which only registers templates and static files.
\<close>

text \<open>
  C29 (roundtrip): the listing gives back what was submitted.  From any absent or clean
  store, a valid submission followed by a listing shows a last row whose rating cells decode,
  by counting glyphs, to the submitted scores, and whose text cells are the submitted name,
  location and times (times without spaces), as text mode reads them back.
\<close>

theorem listing_decodes_submission:
  assumes "store_ok st" and "csv_writable st"
    and "secret_key cfg \<noteq> None" and "secret_key cfg \<noteq> Some []"
    and "validate_on_submit url_ok c fd" and "bounded_request (Request POST ''/add'' fd c)"
  shows "\<exists>rows row st' vc vw vp.
           run cfg url_ok st [Request POST ''/add'' fd c, Request GET ''/cafes'' [] False] =
             ([Redirect ''/cafes'', RenderCafes (rows @ [row])], st') \<and>
           row ! 0 = univ_nl (the (field_data fd ''name'')) \<and>
           row ! 1 = univ_nl (the (field_data fd ''cafe_location'')) \<and>
           row ! 2 = univ_nl (removeAll SP (the (field_data fd ''opening''))) \<and>
           row ! 3 = univ_nl (removeAll SP (the (field_data fd ''closing''))) \<and>
           field_data fd ''coffee_rating'' = Some (py_str_of_int vc) \<and> rating_of_display Coffee (row ! 4) = Some vc \<and>
           field_data fd ''wifi_rating'' = Some (py_str_of_int vw) \<and> rating_of_display Wifi (row ! 5) = Some vw \<and>
           field_data fd ''power_socket_rating'' = Some (py_str_of_int vp) \<and> rating_of_display Power (row ! 6) = Some vp"
proof -
  obtain co wo so vc vw vp where r: "new_row fd =
           Inr [the (field_data fd ''name''), the (field_data fd ''cafe_location''),
                removeAll SP (the (field_data fd ''opening'')),
                removeAll SP (the (field_data fd ''closing'')), co, wo, so]" and
    e: "field_data fd ''coffee_rating'' = Some (py_str_of_int vc)" "spec_encode Coffee vc = Some co"
       "field_data fd ''wifi_rating'' = Some (py_str_of_int vw)" "spec_encode Wifi vw = Some wo"
       "field_data fd ''power_socket_rating'' = Some (py_str_of_int vp)" "spec_encode Power vp = Some so"
    using valid_new_row [OF assms(5)] by blast
  obtain rows where h:
      "handle cfg url_ok st (Request POST ''/add'' fd c) =
         (Inr (Redirect ''/cafes''), st\<lparr>csv_file := Some (stored st @ csv_writerow
            [the (field_data fd ''name''), the (field_data fd ''cafe_location''),
             removeAll SP (the (field_data fd ''opening'')), removeAll SP (the (field_data fd ''closing'')),
             co, wo, so])\<rparr>)"
      "cafes (st\<lparr>csv_file := Some (stored st @ csv_writerow
            [the (field_data fd ''name''), the (field_data fd ''cafe_location''),
             removeAll SP (the (field_data fd ''opening'')), removeAll SP (the (field_data fd ''closing'')),
             co, wo, so])\<rparr>) =
         (Inr (RenderCafes (rows @ [map univ_nl
            [the (field_data fd ''name''), the (field_data fd ''cafe_location''),
             removeAll SP (the (field_data fd ''opening'')), removeAll SP (the (field_data fd ''closing'')),
             co, wo, so]])), st\<lparr>csv_file := Some (stored st @ csv_writerow
            [the (field_data fd ''name''), the (field_data fd ''cafe_location''),
             removeAll SP (the (field_data fd ''opening'')), removeAll SP (the (field_data fd ''closing'')),
             co, wo, so])\<rparr>)"
    using post_then_cafes_any [OF assms(1-5) r row_fields_bounded [OF assms(6,5) r]] by blast
  have d: "rating_of_display Coffee co = Some vc" "rating_of_display Wifi wo = Some vw"
          "rating_of_display Power so = Some vp"
    using e by (simp_all add: spec_encode_decode)
  have u: "univ_nl co = co" "univ_nl wo = wo" "univ_nl so = so"
    using e by (simp_all add: encoded_univ_nl)
  show ?thesis
    using h e d u by (simp add: handle_simps respond_simps)
qed

theorem listing_decodes_submission_witness:
  "store_ok \<lparr>csv_file = None, csv_writable = True\<rparr> \<and> csv_writable \<lparr>csv_file = None, csv_writable = True\<rparr> \<and>
   secret_key \<lparr>secret_key = Some (py ''k'')\<rparr> \<noteq> None \<and> secret_key \<lparr>secret_key = Some (py ''k'')\<rparr> \<noteq> Some [] \<and>
   validate_on_submit (\<lambda>_. True) True spec_example_form \<and>
   bounded_request (Request POST ''/add'' spec_example_form True) \<and>
   (\<exists>rows row st' vc vw vp.
      run \<lparr>secret_key = Some (py ''k'')\<rparr> (\<lambda>_. True) \<lparr>csv_file = None, csv_writable = True\<rparr>
        [Request POST ''/add'' spec_example_form True, Request GET ''/cafes'' [] False] =
        ([Redirect ''/cafes'', RenderCafes (rows @ [row])], st') \<and>
      row ! 0 = univ_nl (the (field_data spec_example_form ''name'')) \<and>
      row ! 1 = univ_nl (the (field_data spec_example_form ''cafe_location'')) \<and>
      row ! 2 = univ_nl (removeAll SP (the (field_data spec_example_form ''opening''))) \<and>
      row ! 3 = univ_nl (removeAll SP (the (field_data spec_example_form ''closing''))) \<and>
      field_data spec_example_form ''coffee_rating'' = Some (py_str_of_int vc) \<and>
      rating_of_display Coffee (row ! 4) = Some vc \<and>
      field_data spec_example_form ''wifi_rating'' = Some (py_str_of_int vw) \<and>
      rating_of_display Wifi (row ! 5) = Some vw \<and>
      field_data spec_example_form ''power_socket_rating'' = Some (py_str_of_int vp) \<and>
      rating_of_display Power (row ! 6) = Some vp)"
proof -
  have v: "validate_on_submit (\<lambda>_. True) True spec_example_form"
    by (rule spec_example_valid) simp
  have s0: "store_ok \<lparr>csv_file = None, csv_writable = True\<rparr>"
    by (simp add: store_ok_def)
  have w: "csv_writable \<lparr>csv_file = None, csv_writable = True\<rparr>"
    by simp
  have k: "secret_key \<lparr>secret_key = Some (py ''k'')\<rparr> \<noteq> None"
          "secret_key \<lparr>secret_key = Some (py ''k'')\<rparr> \<noteq> Some []"
    by (simp_all add: py_simps)
  note r = listing_decodes_submission [OF s0 w k v spec_example_bounded]
  show ?thesis
    by (intro conjI s0 w k v spec_example_bounded r)
qed

end
